theory Spec2Isabelle
  imports Main "HOL-Library.AList"
begin

section \<open>Strings\<close>

text \<open>
  Go strings are byte sequences; they are modelled as \<open>string\<close> (a list of 8-bit
  characters), read as UTF-8 where Go does.
\<close>

fun HasPrefix :: "string \<Rightarrow> string \<Rightarrow> bool" where
  "HasPrefix s [] = True"
| "HasPrefix [] (p # ps) = False"
| "HasPrefix (c # cs) (p # ps) = (c = p \<and> HasPrefix cs ps)"

text \<open>
  \<open>strings.ToLower\<close>. A string whose bytes are all below \<open>utf8.RuneSelf\<close> (0x80) has
  its letters \<open>A\<close> to \<open>Z\<close> mapped to \<open>a\<close> to \<open>z\<close>. Any other string goes through the
  case tables of the package \<open>unicode\<close>, which are not part of this repository: what
  \<open>ToLower\<close> returns then is left open (\<open>unicode_ToLower\<close> is a function of which
  nothing is known), so that whatever is proved holds whatever Go returns there.
\<close>

definition isASCII :: "char \<Rightarrow> bool" where
  "isASCII c = (\<not> digit7 c)"

definition unicode_ToLower :: "string \<Rightarrow> string" where
  "unicode_ToLower = undefined"

definition ToLower :: "string \<Rightarrow> string" where
  "ToLower s =
     (if list_all isASCII s
      then map (\<lambda>c. case map_of (zip ''ABCDEFGHIJKLMNOPQRSTUVWXYZ''
                                      ''abcdefghijklmnopqrstuvwxyz'') c of
                       Some l \<Rightarrow> l | None \<Rightarrow> c) s
      else unicode_ToLower s)"

text \<open>
  \<open>strings.TrimSpace\<close> removes the leading and the trailing white space, as
  \<open>unicode.IsSpace\<close> defines it: the characters U+0009 to U+000D, U+0020, U+0085, U+00A0,
  U+1680, U+2000 to U+200A, U+2028, U+2029, U+202F, U+205F and U+3000. \<open>spaceRunes\<close>
  lists their UTF-8 encodings. A byte sequence that is not one of these encodings is no
  white space, whether it is valid UTF-8 or not.
\<close>

definition spaceRunes :: "string list" where
  "spaceRunes =
     [[CHR 0x09], [CHR 0x0A], [CHR 0x0B], [CHR 0x0C], [CHR 0x0D], [CHR 0x20],
      [CHR 0xC2, CHR 0x85], [CHR 0xC2, CHR 0xA0],
      [CHR 0xE1, CHR 0x9A, CHR 0x80],
      [CHR 0xE2, CHR 0x80, CHR 0x80], [CHR 0xE2, CHR 0x80, CHR 0x81],
      [CHR 0xE2, CHR 0x80, CHR 0x82], [CHR 0xE2, CHR 0x80, CHR 0x83],
      [CHR 0xE2, CHR 0x80, CHR 0x84], [CHR 0xE2, CHR 0x80, CHR 0x85],
      [CHR 0xE2, CHR 0x80, CHR 0x86], [CHR 0xE2, CHR 0x80, CHR 0x87],
      [CHR 0xE2, CHR 0x80, CHR 0x88], [CHR 0xE2, CHR 0x80, CHR 0x89],
      [CHR 0xE2, CHR 0x80, CHR 0x8A],
      [CHR 0xE2, CHR 0x80, CHR 0xA8], [CHR 0xE2, CHR 0x80, CHR 0xA9],
      [CHR 0xE2, CHR 0x80, CHR 0xAF], [CHR 0xE2, CHR 0x81, CHR 0x9F],
      [CHR 0xE3, CHR 0x80, CHR 0x80]]"

text \<open>Removing, as long as there is one, a leading word of the list \<open>ws\<close>.\<close>

function trimPrefixes :: "string list \<Rightarrow> string \<Rightarrow> string" where
  "trimPrefixes ws s =
     (case find (\<lambda>w. w \<noteq> [] \<and> HasPrefix s w) ws of
        None \<Rightarrow> s
      | Some w \<Rightarrow> trimPrefixes ws (drop (length w) s))"
  by pat_completeness auto
termination
proof (relation "measure (\<lambda>(ws, s). length s)")
  show "wf (measure (\<lambda>(ws, s). length s))" by simp
next
  fix ws :: "string list" and s w :: string
  assume "find (\<lambda>w. w \<noteq> [] \<and> HasPrefix s w) ws = Some w"
  then have "w \<noteq> []" and "HasPrefix s w"
    by (auto simp: find_Some_iff)
  then have "s \<noteq> []"
    by (cases s; cases w) simp_all
  with \<open>w \<noteq> []\<close> show "((ws, drop (length w) s), (ws, s)) \<in> measure (\<lambda>(ws, s). length s)"
    by simp
qed

definition TrimSpace :: "string \<Rightarrow> string" where
  "TrimSpace s = rev (trimPrefixes (map rev spaceRunes) (rev (trimPrefixes spaceRunes s)))"

fun Contains :: "string \<Rightarrow> string \<Rightarrow> bool" where
  "Contains [] sub = (sub = [])"
| "Contains (c # cs) sub = (HasPrefix (c # cs) sub \<or> Contains cs sub)"

fun Join :: "string list \<Rightarrow> string \<Rightarrow> string" where
  "Join [] sep = []"
| "Join [x] sep = x"
| "Join (x # y # ys) sep = x @ sep @ Join (y # ys) sep"

text \<open>\<open>strings.SplitN(s, "-", 2)\<close>: at most two parts, split at the first separator.\<close>

definition SplitN2 :: "string \<Rightarrow> char \<Rightarrow> string list" where
  "SplitN2 s sep =
     (if sep \<in> set s then [takeWhile (\<lambda>c. c \<noteq> sep) s, tl (dropWhile (\<lambda>c. c \<noteq> sep) s)]
      else [s])"

text \<open>The verb \<open>%d\<close> of \<open>fmt\<close> on an \<open>int64\<close>.\<close>

function fmt_nat :: "nat \<Rightarrow> string" where
  "fmt_nat n =
     (if n < 10 then [''0123456789'' ! n]
      else fmt_nat (n div 10) @ [''0123456789'' ! (n mod 10)])"
  by pat_completeness auto
termination
  by (relation "measure id") auto

definition fmt_d :: "int \<Rightarrow> string" where
  "fmt_d n = (if n < 0 then CHR ''-'' # fmt_nat (nat (- n)) else fmt_nat (nat n))"

text \<open>
  \<open>projectPrefixRe\<close> is \<open>^[a-z0-9]{3}$\<close> and \<open>issueIDRe\<close> is \<open>^[a-z0-9]{3}-[0-9]+$\<close>
  (in Go's syntax \<open>$\<close> is the end of the text).
\<close>

definition isLowerAlnum :: "char \<Rightarrow> bool" where
  "isLowerAlnum c = (c \<in> set ''abcdefghijklmnopqrstuvwxyz0123456789'')"

definition isDigit :: "char \<Rightarrow> bool" where
  "isDigit c = (c \<in> set ''0123456789'')"

definition projectPrefixRe :: "string \<Rightarrow> bool" where
  "projectPrefixRe s = (length s = 3 \<and> list_all isLowerAlnum s)"

definition issueIDRe :: "string \<Rightarrow> bool" where
  "issueIDRe s =
     (projectPrefixRe (take 3 s) \<and> take 1 (drop 3 s) = ''-'' \<and>
      drop 4 s \<noteq> [] \<and> list_all isDigit (drop 4 s))"

section \<open>Errors\<close>

text \<open>
  The sentinel errors of \<open>errors.go\<close>. An error built by \<open>fmt.Errorf\<close> keeps its format
  string and its arguments; \<open>W\<close> is the sentinel wrapped by \<open>%w\<close>. \<open>ExternalErr\<close> is an
  error made outside the package (by the database driver or by the random source), with
  its message; it wraps none of the sentinels.
\<close>

datatype sentinel =
  ErrInvalidInput | ErrNotFound | ErrConflict | ErrInvalidStateTransition
  | ErrDepthExceeded | ErrCycleDetected

datatype fmt_arg = W sentinel | Q string | S string | D int

datatype error = Errorf string "fmt_arg list" | ExternalErr string

fun wraps :: "fmt_arg list \<Rightarrow> sentinel \<Rightarrow> bool" where
  "wraps [] k = False"
| "wraps (W k' # as) k = (k' = k \<or> wraps as k)"
| "wraps (a # as) k = wraps as k"

text \<open>\<open>errors.Is(err, sentinel)\<close>.\<close>

fun errors_Is :: "error \<Rightarrow> sentinel \<Rightarrow> bool" where
  "errors_Is (Errorf f as) k = wraps as k"
| "errors_Is (ExternalErr m) k = False"

section \<open>Types (types.go) and category rules\<close>

type_synonym State = string
type_synonym Category = string
type_synonym timestamp = nat

definition StateTodo :: State where "StateTodo = ''todo''"
definition StateInProgress :: State where "StateInProgress = ''in_progress''"
definition StateBlocked :: State where "StateBlocked = ''blocked''"
definition StateDone :: State where "StateDone = ''done''"
definition StateCanceled :: State where "StateCanceled = ''canceled''"

definition CategoryTask :: Category where "CategoryTask = ''task''"
definition CategoryWorkstream :: Category where "CategoryWorkstream = ''workstream''"
definition CategoryProject :: Category where "CategoryProject = ''project''"

record Issue =
  ID :: string
  ProjectPrefix :: string
  Category :: Category
  Title :: string
  Body :: string
  State :: State
  ParentID :: "string option"
  Version :: int
  BlockedBy :: "string list"
  CreatedAt :: timestamp
  LastUpdatedAt :: timestamp
  ClosedAt :: "timestamp option"

definition IsValidCategory :: "Category \<Rightarrow> bool" where
  "IsValidCategory c =
     (if c = CategoryTask \<or> c = CategoryWorkstream \<or> c = CategoryProject then True else False)"

definition expectedParentCategory :: "Category \<Rightarrow> Category \<times> bool" where
  "expectedParentCategory c =
     (if c = CategoryTask then (CategoryWorkstream, True)
      else if c = CategoryWorkstream then (CategoryProject, True)
      else if c = CategoryProject then ('''', False)
      else ('''', False))"

section \<open>The state machine (state\_machine.go)\<close>

definition validTransitions :: "(State \<times> (State \<times> bool) list) list" where
  "validTransitions =
     [(StateTodo, [(StateInProgress, True), (StateBlocked, True), (StateCanceled, True)]),
      (StateInProgress,
         [(StateBlocked, True), (StateDone, True), (StateTodo, True), (StateCanceled, True)]),
      (StateBlocked, [(StateTodo, True), (StateInProgress, True), (StateCanceled, True)]),
      (StateDone, [(StateTodo, True)]),
      (StateCanceled, [(StateTodo, True)])]"

definition IsValidState :: "State \<Rightarrow> bool" where
  "IsValidState s = (case map_of validTransitions s of None \<Rightarrow> False | Some _ \<Rightarrow> True)"

text \<open>Reading a Go map of booleans at a missing key gives \<open>false\<close>.\<close>

definition ValidateTransition :: "State \<Rightarrow> State \<Rightarrow> error option" where
  "ValidateTransition from to =
     (if from = to then None
      else case map_of validTransitions from of
        None \<Rightarrow> Some (Errorf ''%w: %s -> %s'' [W ErrInvalidStateTransition, S from, S to])
      | Some next \<Rightarrow>
          if \<not> (case map_of next to of None \<Rightarrow> False | Some b \<Rightarrow> b)
          then Some (Errorf ''%w: %s -> %s'' [W ErrInvalidStateTransition, S from, S to])
          else None)"

section \<open>The store\<close>

text \<open>
  The table \<open>issues\<close> of the schema: one row per id (\<open>id TEXT PRIMARY KEY\<close>), kept as
  an association list from the id to the other columns, in insertion order. The column
  \<open>blocked_by\<close> holds the JSON text of a list of strings and is kept as that list.
  \<open>CURRENT_TIMESTAMP\<close> is the parameter \<open>now\<close> of each operation. The column
  \<open>version\<close> is an SQLite INTEGER and \<open>version + 1\<close> is taken without overflow:
  versions start at 1 and grow by one per mutation.

  \<open>BeginTx\<close>, the \<open>SELECT\<close>s and the \<open>UPDATE\<close>s do what the schema says, and the
  \<open>Commit\<close> of \<open>TransitionState\<close>, \<open>SetParent\<close> and \<open>SetBlockedBy\<close> succeeds. The
  \<open>INSERT\<close> and the \<open>Commit\<close> of \<open>CreateIssue\<close>, whose errors decide between another
  attempt and a return, can fail with any message: the failure is a parameter. An
  operation returns the committed store together with its Go result; on every error path
  the transaction is rolled back, and a \<open>Commit\<close> that fails commits nothing, so the store
  returned is the one received.
\<close>

record row =
  category :: Category
  title :: string
  body :: string
  state :: State
  parent_id :: "string option"
  version :: int
  blocked_by :: "string list"
  created_at :: timestamp
  last_updated_at :: timestamp
  closed_at :: "timestamp option"

type_synonym store = "(string \<times> row) list"

definition projectPrefixFromIssueID :: "string \<Rightarrow> string \<times> bool" where
  "projectPrefixFromIssueID id' =
     (let parts = SplitN2 (ToLower (TrimSpace id')) CHR ''-'' in
      if length parts \<noteq> 2 then ('''', False)
      else if \<not> projectPrefixRe (parts ! 0) then ('''', False)
      else (parts ! 0, True))"

text \<open>\<open>scanIssue\<close> on the row selected by \<open>WHERE id = ?\<close>: its id column is the id asked for.\<close>

definition scanIssue :: "string \<Rightarrow> row \<Rightarrow> Issue" where
  "scanIssue id' r =
     \<lparr>ID = id',
      ProjectPrefix = (case projectPrefixFromIssueID id' of (prefix, ok) \<Rightarrow>
                         if ok then prefix else ''''),
      Category = category r, Title = title r, Body = body r, State = state r,
      ParentID = parent_id r, Version = version r, BlockedBy = blocked_by r,
      CreatedAt = created_at r, LastUpdatedAt = last_updated_at r, ClosedAt = closed_at r\<rparr>"

definition getIssueByIDTx :: "store \<Rightarrow> string \<Rightarrow> error + Issue" where
  "getIssueByIDTx tx id' =
     (case map_of tx id' of
        None \<Rightarrow> Inl (Errorf ''%w: issue %q not found'' [W ErrNotFound, Q id'])
      | Some r \<Rightarrow> Inr (scanIssue id' r))"

text \<open>
  The trigger \<open>trg_issues_last_updated_at\<close> of the schema, run after each update of a row.
\<close>

definition trg_issues_last_updated_at :: "timestamp \<Rightarrow> row \<Rightarrow> row" where
  "trg_issues_last_updated_at now r = r\<lparr>last_updated_at := now\<rparr>"

text \<open>
  \<open>UPDATE issues SET ... WHERE id = ? [AND version = ?]\<close>: the new table and
  \<open>RowsAffected\<close>.
\<close>

definition sql_update ::
  "store \<Rightarrow> timestamp \<Rightarrow> string \<Rightarrow> int option \<Rightarrow> (row \<Rightarrow> row) \<Rightarrow> store \<times> nat" where
  "sql_update tx now id' expectedVersion set_cols =
     (case map_of tx id' of
        None \<Rightarrow> (tx, 0)
      | Some r \<Rightarrow>
          (case expectedVersion of
             None \<Rightarrow> (AList.map_entry id' (\<lambda>r. trg_issues_last_updated_at now (set_cols r)) tx, 1)
           | Some v \<Rightarrow>
               if version r = v
               then (AList.map_entry id' (\<lambda>r. trg_issues_last_updated_at now (set_cols r)) tx, 1)
               else (tx, 0)))"

text \<open>
  \<open>INSERT INTO issues\<close>, with the message of its error: it fails with \<open>failure\<close> when
  the environment makes it fail, and otherwise the primary key refuses an id that is
  already there.
\<close>

definition sql_insert :: "store \<Rightarrow> string \<Rightarrow> row \<Rightarrow> string option \<Rightarrow> string + store" where
  "sql_insert tx id' r failure =
     (case failure of
        Some msg \<Rightarrow> Inl msg
      | None \<Rightarrow>
          if map_of tx id' \<noteq> None
          then Inl ''constraint failed: UNIQUE constraint failed: issues.id (1555)''
          else Inr (tx @ [(id', r)]))"

text \<open>\<open>tx.Commit()\<close> where it can fail: the committed store, or the message of the error.\<close>

definition tx_Commit :: "store \<Rightarrow> string option \<Rightarrow> string + store" where
  "tx_Commit tx failure = (case failure of Some msg \<Rightarrow> Inl msg | None \<Rightarrow> Inr tx)"

definition isUniqueViolation :: "string \<Rightarrow> bool" where
  "isUniqueViolation msg = Contains (ToLower msg) ''unique''"

section \<open>Dependencies\<close>

fun unresolvedBlockedByTx_loop :: "store \<Rightarrow> string list \<Rightarrow> string list \<Rightarrow> error + string list" where
  "unresolvedBlockedByTx_loop tx [] unresolved = Inr unresolved"
| "unresolvedBlockedByTx_loop tx (depID # rest) unresolved =
     (case getIssueByIDTx tx depID of
        Inl err \<Rightarrow>
          (if errors_Is err ErrNotFound
           then Inl (Errorf ''%w: blocked_by issue %q not found'' [W ErrNotFound, Q depID])
           else Inl err)
      | Inr dep \<Rightarrow>
          if State dep \<noteq> StateDone
          then unresolvedBlockedByTx_loop tx rest (unresolved @ [ID dep])
          else unresolvedBlockedByTx_loop tx rest unresolved)"

definition unresolvedBlockedByTx :: "store \<Rightarrow> Issue \<Rightarrow> error + string list" where
  "unresolvedBlockedByTx tx issue = unresolvedBlockedByTx_loop tx (BlockedBy issue) []"

section \<open>TransitionState\<close>

text \<open>The \<open>SET\<close> clause that \<open>TransitionState\<close> collects in \<open>setParts\<close>.\<close>

definition TransitionState_setParts :: "timestamp \<Rightarrow> State \<Rightarrow> row \<Rightarrow> row" where
  "TransitionState_setParts now to r =
     r\<lparr>state := to, version := version r + 1, last_updated_at := now,
       closed_at := (if to = StateDone \<or> to = StateCanceled then Some now else None)\<rparr>"

definition TransitionState ::
  "store \<Rightarrow> timestamp \<Rightarrow> string \<Rightarrow> State \<Rightarrow> int option \<Rightarrow> store \<times> (error + Issue)" where
  "TransitionState db now id' to expectedVersion =
     (if \<not> IsValidState to
      then (db, Inl (Errorf ''%w: unknown target state %q'' [W ErrInvalidInput, Q to]))
      else case getIssueByIDTx db id' of
        Inl err \<Rightarrow> (db, Inl err)
      | Inr issue \<Rightarrow>
      (case ValidateTransition (State issue) to of
        Some err \<Rightarrow> (db, Inl err)
      | None \<Rightarrow>
      (case (if to = StateInProgress
             then (case unresolvedBlockedByTx db issue of
                     Inl err \<Rightarrow> Some err
                   | Inr unresolved \<Rightarrow>
                       if length unresolved > 0
                       then Some (Errorf ''%w: blocked_by not done: %s''
                                    [W ErrInvalidInput, S (Join unresolved '','')])
                       else None)
             else None) of
        Some err \<Rightarrow> (db, Inl err)
      | None \<Rightarrow>
      (case sql_update db now id' expectedVersion (TransitionState_setParts now to) of
        (tx, affected) \<Rightarrow>
          if affected = 0
          then (case expectedVersion of
                  Some v \<Rightarrow>
                    (db, Inl (Errorf ''%w: stale write; expected version %d'' [W ErrConflict, D v]))
                | None \<Rightarrow>
                    (db, Inl (Errorf ''%w: issue %q not found'' [W ErrNotFound, Q id'])))
          else (case getIssueByIDTx tx id' of
                  Inl err \<Rightarrow> (db, Inl err)
                | Inr updated \<Rightarrow> (tx, Inr updated))))))"

section \<open>Dependency normalization\<close>

text \<open>The Go map \<open>seen\<close> is a function to \<open>bool\<close>: a key never stored reads \<open>false\<close>.\<close>

fun normalizeBlockedByTx_loop ::
  "store \<Rightarrow> string \<Rightarrow> string \<Rightarrow> string list \<Rightarrow> (string \<Rightarrow> bool) \<Rightarrow> string list
     \<Rightarrow> error + string list" where
  "normalizeBlockedByTx_loop tx issueID projectPrefix [] seen out = Inr out"
| "normalizeBlockedByTx_loop tx issueID projectPrefix (raw # rest) seen out =
     (let id' = ToLower (TrimSpace raw) in
      if id' = '''' then normalizeBlockedByTx_loop tx issueID projectPrefix rest seen out
      else if \<not> issueIDRe id'
      then Inl (Errorf ''%w: invalid blocked_by issue id %q'' [W ErrInvalidInput, Q id'])
      else if id' = issueID
      then Inl (Errorf ''%w: blocked_by cannot include self'' [W ErrInvalidInput])
      else if seen id' then normalizeBlockedByTx_loop tx issueID projectPrefix rest seen out
      else
        (case projectPrefixFromIssueID id' of (prefix, ok) \<Rightarrow>
           if \<not> ok \<or> prefix \<noteq> projectPrefix
           then Inl (Errorf ''%w: blocked_by issue must be in same project: %q''
                       [W ErrInvalidInput, Q id'])
           else
             (case getIssueByIDTx tx id' of
                Inl err \<Rightarrow>
                  (if errors_Is err ErrNotFound
                   then Inl (Errorf ''%w: blocked_by issue %q not found'' [W ErrNotFound, Q id'])
                   else Inl err)
              | Inr dep \<Rightarrow>
                  if ProjectPrefix dep \<noteq> projectPrefix
                  then Inl (Errorf ''%w: blocked_by issue must be in same project: %q''
                              [W ErrInvalidInput, Q id'])
                  else normalizeBlockedByTx_loop tx issueID projectPrefix rest
                         (seen(id' := True)) (out @ [id']))))"

definition normalizeBlockedByTx ::
  "store \<Rightarrow> string \<Rightarrow> string \<Rightarrow> string list \<Rightarrow> error + string list" where
  "normalizeBlockedByTx tx issueID projectPrefix blockedBy =
     normalizeBlockedByTx_loop tx issueID projectPrefix blockedBy (\<lambda>_. False) []"

section \<open>CreateIssue\<close>

text \<open>
  What one attempt of \<open>CreateIssue\<close> gets from outside the program: \<open>rand_Reader\<close> is
  the outcome of reading \<open>rand.Reader\<close>, the message of an error or a number;
  \<open>insert_failure\<close> and \<open>commit_failure\<close> are the messages of the errors, if any, that
  the environment raises in the \<open>INSERT\<close> and in the \<open>Commit\<close>.
\<close>

record attempt_env =
  rand_Reader :: "string + nat"
  insert_failure :: "string option"
  commit_failure :: "string option"

text \<open>
  \<open>rand.Int(rand.Reader, bound)\<close> for a positive \<open>bound\<close>: the error of the reader,
  or a number from 0 up to, and not including, \<open>bound\<close>. The number read is reduced below
  \<open>bound\<close>: every value of the parameter stands for an outcome \<open>rand.Int\<close> can have, and
  every such outcome for a value of the parameter.
\<close>

definition rand_Int :: "string + nat \<Rightarrow> int \<Rightarrow> error + int" where
  "rand_Int rd bound =
     (case rd of Inl msg \<Rightarrow> Inl (ExternalErr msg) | Inr x \<Rightarrow> Inr (int x mod bound))"

definition randomIssueNumber :: "string + nat \<Rightarrow> error + int" where
  "randomIssueNumber rd =
     (case rand_Int rd 900000 of Inl err \<Rightarrow> Inl err | Inr n \<Rightarrow> Inr (100000 + n))"

definition maxCreateAttempts :: nat where
  "maxCreateAttempts = 8"

text \<open>
  One round of the loop of \<open>CreateIssue\<close>: it either goes on to the next attempt
  (\<open>continue\<close>) or returns.
\<close>

datatype attempt = Continue | Return "store \<times> (error + Issue)"

definition CreateIssue_attempt ::
  "store \<Rightarrow> timestamp \<Rightarrow> string \<Rightarrow> Category \<Rightarrow> string \<Rightarrow> string \<Rightarrow> string option
     \<Rightarrow> string list \<Rightarrow> attempt_env \<Rightarrow> attempt" where
  "CreateIssue_attempt db now projectPrefix cat ttl bdy parentID blockedBy env =
     (case randomIssueNumber (rand_Reader env) of
        Inl err \<Rightarrow> Return (db, Inl err)
      | Inr number \<Rightarrow>
      (let issueID = projectPrefix @ ''-'' @ fmt_d number in
       case expectedParentCategory cat of (requiredParentCategory, needsParent) \<Rightarrow>
      (let hasParent = (case parentID of None \<Rightarrow> False | Some p \<Rightarrow> TrimSpace p \<noteq> '''') in
       if needsParent \<and> \<not> hasParent
       then Return (db, Inl (Errorf ''%w: category %q requires parent category %q''
                               [W ErrInvalidInput, Q cat, Q requiredParentCategory]))
       else if \<not> needsParent \<and> hasParent
       then Return (db, Inl (Errorf ''%w: category %q cannot have a parent''
                               [W ErrInvalidInput, Q cat]))
       else
      (case (case parentID of
               None \<Rightarrow> Inr None
             | Some p \<Rightarrow>
                 if hasParent
                 then (let pid = TrimSpace p in
                       case getIssueByIDTx db pid of
                         Inl err \<Rightarrow>
                           (if errors_Is err ErrNotFound
                            then Inl (Errorf ''%w: parent issue %q not found''
                                        [W ErrNotFound, Q pid])
                            else Inl err)
                       | Inr parent \<Rightarrow>
                           if ProjectPrefix parent \<noteq> projectPrefix
                           then Inl (Errorf ''%w: parent issue must be in same project''
                                       [W ErrInvalidInput])
                           else if Category parent \<noteq> requiredParentCategory
                           then Inl (Errorf ''%w: category %q requires parent category %q''
                                       [W ErrInvalidInput, Q cat, Q requiredParentCategory])
                           else Inr (Some pid))
                 else Inr None) of
         Inl err \<Rightarrow> Return (db, Inl err)
       | Inr cleanParent \<Rightarrow>
      (case normalizeBlockedByTx db issueID projectPrefix blockedBy of
         Inl err \<Rightarrow> Return (db, Inl err)
       | Inr normalizedBlockedBy \<Rightarrow>
      (case sql_insert db issueID
              \<lparr>category = cat, title = ttl, body = bdy, state = ''todo'',
               parent_id = cleanParent, version = 1, blocked_by = normalizedBlockedBy,
               created_at = now, last_updated_at = now, closed_at = None\<rparr>
              (insert_failure env) of
         Inl msg \<Rightarrow>
           if isUniqueViolation msg then Continue else Return (db, Inl (ExternalErr msg))
       | Inr tx \<Rightarrow>
           (case getIssueByIDTx tx issueID of
              Inl err \<Rightarrow> Return (db, Inl err)
            | Inr issue \<Rightarrow>
                (case tx_Commit tx (commit_failure env) of
                   Inl msg \<Rightarrow>
                     if isUniqueViolation msg then Continue
                     else Return (db, Inl (ExternalErr msg))
                 | Inr db' \<Rightarrow> Return (db', Inr issue)))))))))"

text \<open>
  The loop \<open>for attempt := 0; attempt < maxCreateAttempts; attempt++\<close>; \<open>envs i\<close> is
  the environment of attempt \<open>i\<close>.
\<close>

function CreateIssue_loop ::
  "store \<Rightarrow> timestamp \<Rightarrow> string \<Rightarrow> Category \<Rightarrow> string \<Rightarrow> string \<Rightarrow> string option
     \<Rightarrow> string list \<Rightarrow> (nat \<Rightarrow> attempt_env) \<Rightarrow> nat \<Rightarrow> store \<times> (error + Issue)" where
  "CreateIssue_loop db now projectPrefix cat ttl bdy parentID blockedBy envs attempt =
     (if attempt < maxCreateAttempts
      then (case CreateIssue_attempt db now projectPrefix cat ttl bdy parentID blockedBy
                   (envs attempt) of
              Continue \<Rightarrow>
                CreateIssue_loop db now projectPrefix cat ttl bdy parentID blockedBy envs
                  (attempt + 1)
            | Return r \<Rightarrow> r)
      else (db, Inl (Errorf ''%w: failed to allocate issue number after retries''
                       [W ErrConflict])))"
  by pat_completeness auto
termination
  by (relation "measure (\<lambda>(db, now, projectPrefix, cat, ttl, bdy, parentID, blockedBy, envs,
                           attempt). maxCreateAttempts - attempt)") auto

definition CreateIssue ::
  "store \<Rightarrow> timestamp \<Rightarrow> string \<Rightarrow> Category \<Rightarrow> string \<Rightarrow> string \<Rightarrow> string option
     \<Rightarrow> string list \<Rightarrow> (nat \<Rightarrow> attempt_env) \<Rightarrow> store \<times> (error + Issue)" where
  "CreateIssue db now projectPrefix0 cat title0 bdy parentID blockedBy envs =
     (let projectPrefix = TrimSpace (ToLower projectPrefix0);
          ttl = TrimSpace title0 in
      if \<not> projectPrefixRe projectPrefix
      then (db, Inl (Errorf ''%w: project prefix must be exactly 3 lowercase alphanumeric chars''
                       [W ErrInvalidInput]))
      else if \<not> IsValidCategory cat
      then (db, Inl (Errorf ''%w: unknown category %q'' [W ErrInvalidInput, Q cat]))
      else if ttl = ''''
      then (db, Inl (Errorf ''%w: title is required'' [W ErrInvalidInput]))
      else CreateIssue_loop db now projectPrefix cat ttl bdy parentID blockedBy envs 0)"

section \<open>SetParent and SetBlockedBy\<close>

definition SetParent ::
  "store \<Rightarrow> timestamp \<Rightarrow> string \<Rightarrow> string option \<Rightarrow> int option \<Rightarrow> store \<times> (error + Issue)" where
  "SetParent db now id0 parentID expectedVersion =
     (let id' = TrimSpace id0 in
      if id' = '''' then (db, Inl (Errorf ''%w: id is required'' [W ErrInvalidInput]))
      else case getIssueByIDTx db id' of
        Inl err \<Rightarrow> (db, Inl err)
      | Inr issue \<Rightarrow>
      (case expectedParentCategory (Category issue) of (requiredParentCategory, needsParent) \<Rightarrow>
       if needsParent \<and> (case parentID of None \<Rightarrow> True | Some p \<Rightarrow> TrimSpace p = '''')
       then (db, Inl (Errorf ''%w: category %q requires parent category %q''
                        [W ErrInvalidInput, Q (Category issue), Q requiredParentCategory]))
       else if \<not> needsParent \<and> (case parentID of None \<Rightarrow> False | Some p \<Rightarrow> TrimSpace p \<noteq> '''')
       then (db, Inl (Errorf ''%w: category %q cannot have a parent''
                        [W ErrInvalidInput, Q (Category issue)]))
       else
      (case (case parentID of
               None \<Rightarrow> Inr None
             | Some p \<Rightarrow>
                 if needsParent
                 then (let pid = TrimSpace p in
                       case getIssueByIDTx db pid of
                         Inl err \<Rightarrow> Inl err
                       | Inr parent \<Rightarrow>
                           if ProjectPrefix parent \<noteq> ProjectPrefix issue
                           then Inl (Errorf ''%w: parent must be in same project''
                                       [W ErrInvalidInput])
                           else if Category parent \<noteq> requiredParentCategory
                           then Inl (Errorf ''%w: category %q requires parent category %q''
                                       [W ErrInvalidInput, Q (Category issue),
                                        Q requiredParentCategory])
                           else Inr (Some pid))
                 else Inr None) of
         Inl err \<Rightarrow> (db, Inl err)
       | Inr newParent \<Rightarrow>
      (case sql_update db now id' expectedVersion
              (\<lambda>r. r\<lparr>parent_id := newParent, version := version r + 1,
                      last_updated_at := now\<rparr>) of
        (tx, affected) \<Rightarrow>
          if affected = 0
          then (case expectedVersion of
                  Some v \<Rightarrow>
                    (db, Inl (Errorf ''%w: stale write; expected version %d'' [W ErrConflict, D v]))
                | None \<Rightarrow>
                    (db, Inl (Errorf ''%w: issue %q not found'' [W ErrNotFound, Q id'])))
          else (case getIssueByIDTx tx id' of
                  Inl err \<Rightarrow> (db, Inl err)
                | Inr updated \<Rightarrow> (tx, Inr updated))))))"

definition SetBlockedBy ::
  "store \<Rightarrow> timestamp \<Rightarrow> string \<Rightarrow> string list \<Rightarrow> int option \<Rightarrow> store \<times> (error + Issue)" where
  "SetBlockedBy db now id0 blockedBy expectedVersion =
     (let id' = TrimSpace id0 in
      if id' = '''' then (db, Inl (Errorf ''%w: id is required'' [W ErrInvalidInput]))
      else case getIssueByIDTx db id' of
        Inl err \<Rightarrow> (db, Inl err)
      | Inr issue \<Rightarrow>
      (case normalizeBlockedByTx db (ID issue) (ProjectPrefix issue) blockedBy of
         Inl err \<Rightarrow> (db, Inl err)
       | Inr normalized \<Rightarrow>
      (case sql_update db now id' expectedVersion
              (\<lambda>r. r\<lparr>blocked_by := normalized, version := version r + 1,
                      last_updated_at := now\<rparr>) of
        (tx, affected) \<Rightarrow>
          if affected = 0
          then (case expectedVersion of
                  Some v \<Rightarrow>
                    (db, Inl (Errorf ''%w: stale write; expected version %d'' [W ErrConflict, D v]))
                | None \<Rightarrow>
                    (db, Inl (Errorf ''%w: issue %q not found'' [W ErrNotFound, Q id'])))
          else (case getIssueByIDTx tx id' of
                  Inl err \<Rightarrow> (db, Inl err)
                | Inr updated \<Rightarrow> (tx, Inr updated)))))"

section \<open>Notions of the specification\<close>

text \<open>The five states and the table of legal transitions, as the specification lists them.\<close>

definition defined_states :: "State list" where
  "defined_states = [''todo'', ''in_progress'', ''blocked'', ''done'', ''canceled'']"

definition spec_transition_table :: "(State \<times> State) list" where
  "spec_transition_table =
     [(''todo'', ''in_progress''), (''todo'', ''blocked''), (''todo'', ''canceled''),
      (''in_progress'', ''blocked''), (''in_progress'', ''done''), (''in_progress'', ''todo''),
      (''in_progress'', ''canceled''),
      (''blocked'', ''todo''), (''blocked'', ''in_progress''), (''blocked'', ''canceled''),
      (''done'', ''todo''), (''canceled'', ''todo'')]"

text \<open>A dependency id names a row in state \<open>done\<close>; a dependency id names no row.\<close>

definition dep_done :: "store \<Rightarrow> string \<Rightarrow> bool" where
  "dep_done db d = (case map_of db d of None \<Rightarrow> False | Some r \<Rightarrow> state r = ''done'')"

definition dep_missing :: "store \<Rightarrow> string \<Rightarrow> bool" where
  "dep_missing db d = (map_of db d = None)"

text \<open>A small store for examples: two issues, the second one blocked by the first.\<close>

definition ex_row :: row where
  "ex_row = \<lparr>category = ''project'', title = ''Platform'', body = '''', state = ''todo'',
             parent_id = None, version = 1, blocked_by = [], created_at = 1,
             last_updated_at = 1, closed_at = None\<rparr>"

definition ex_db :: store where
  "ex_db = [(''cat-100001'', ex_row\<lparr>version := 4, last_updated_at := 6\<rparr>),
            (''cat-100002'', ex_row\<lparr>state := ''done'', version := 3,
                                blocked_by := [''cat-100001''], created_at := 2,
                                last_updated_at := 5, closed_at := Some 5\<rparr>)]"

text \<open>The row an update of \<open>TransitionState\<close> leaves: its \<open>SET\<close> clause, then the trigger.\<close>

definition transition_row :: "timestamp \<Rightarrow> State \<Rightarrow> row \<Rightarrow> row" where
  "transition_row now to r = trg_issues_last_updated_at now (TransitionState_setParts now to r)"


text \<open>The rows the updates of \<open>SetParent\<close> and \<open>SetBlockedBy\<close> leave.\<close>

definition setparent_row :: "timestamp \<Rightarrow> string option \<Rightarrow> row \<Rightarrow> row" where
  "setparent_row now newParent r =
     trg_issues_last_updated_at now
       (r\<lparr>parent_id := newParent, version := version r + 1, last_updated_at := now\<rparr>)"

definition setblockedby_row :: "timestamp \<Rightarrow> string list \<Rightarrow> row \<Rightarrow> row" where
  "setblockedby_row now normalized r =
     trg_issues_last_updated_at now
       (r\<lparr>blocked_by := normalized, version := version r + 1, last_updated_at := now\<rparr>)"

text \<open>The row \<open>CreateIssue\<close> inserts.\<close>

definition created_row ::
  "timestamp \<Rightarrow> Category \<Rightarrow> string \<Rightarrow> string \<Rightarrow> string option \<Rightarrow> string list \<Rightarrow> row" where
  "created_row now cat ttl bdy cleanParent normalizedBlockedBy =
     \<lparr>category = cat, title = ttl, body = bdy, state = ''todo'', parent_id = cleanParent,
      version = 1, blocked_by = normalizedBlockedBy, created_at = now, last_updated_at = now,
      closed_at = None\<rparr>"

text \<open>
  The project of an issue is derived from its id (it is the field \<open>ProjectPrefix\<close> that
  \<open>scanIssue\<close> fills in). The parent an operation is given is absent when the pointer is
  nil or the string is blank, and is the trimmed string otherwise.
\<close>

definition project_of :: "string \<Rightarrow> string" where
  "project_of k = (case projectPrefixFromIssueID k of (prefix, ok) \<Rightarrow> if ok then prefix else '''')"

definition effective_parent :: "string option \<Rightarrow> string option" where
  "effective_parent p =
     (case p of None \<Rightarrow> None | Some x \<Rightarrow> if TrimSpace x = '''' then None else Some (TrimSpace x))"

text \<open>
  The hierarchy rule of the specification for an issue of category \<open>cat\<close> in project
  \<open>pfx\<close> with parent \<open>par\<close>: a project has no parent; a workstream has a parent that
  exists, is a project and is in the same project; a task has a parent that exists, is a
  workstream and is in the same project.
\<close>

definition has_parent :: "store \<Rightarrow> Category \<Rightarrow> string \<Rightarrow> string option \<Rightarrow> bool" where
  "has_parent db c pfx par =
     (case par of
        None \<Rightarrow> False
      | Some p \<Rightarrow> (case map_of db p of
                     None \<Rightarrow> False
                   | Some pr \<Rightarrow> category pr = c \<and> project_of p = pfx))"

definition hierarchy_rule :: "store \<Rightarrow> Category \<Rightarrow> string \<Rightarrow> string option \<Rightarrow> bool" where
  "hierarchy_rule db cat pfx par =
     ((cat = ''project'' \<longrightarrow> par = None)
      \<and> (cat = ''workstream'' \<longrightarrow> has_parent db ''project'' pfx par)
      \<and> (cat = ''task'' \<longrightarrow> has_parent db ''workstream'' pfx par))"

text \<open>The invariant: every row of the table satisfies the hierarchy rule.\<close>

definition hierarchy_inv :: "store \<Rightarrow> bool" where
  "hierarchy_inv db =
     (\<forall>(k, r) \<in> set db. map_of db k = Some r \<longrightarrow>
        hierarchy_rule db (category r) (project_of k) (parent_id r))"

text \<open>The invariant: \<open>closed_at\<close> is set exactly in the states \<open>done\<close> and \<open>canceled\<close>.\<close>

definition closed_at_inv :: "store \<Rightarrow> bool" where
  "closed_at_inv db =
     (\<forall>(k, r) \<in> set db. map_of db k = Some r \<longrightarrow>
        (closed_at r \<noteq> None) = (state r = ''done'' \<or> state r = ''canceled''))"

text \<open>
  What the code checks of a parent: as the hierarchy rule, and an issue of any other
  category has no parent either.
\<close>

definition parent_ok :: "store \<Rightarrow> Category \<Rightarrow> string \<Rightarrow> string option \<Rightarrow> bool" where
  "parent_ok db cat pfx par =
     (if cat = ''task'' then has_parent db ''workstream'' pfx par
      else if cat = ''workstream'' then has_parent db ''project'' pfx par
      else par = None)"

text \<open>
  Dependency normalization: an entry is first trimmed and lower-cased; an id is accepted
  as a dependency of the issue \<open>issueID\<close> of project \<open>pfx\<close> when it is well-formed, is
  not the issue itself, carries the project prefix and names a row of the table.
\<close>

definition normalize_id :: "string \<Rightarrow> string" where
  "normalize_id raw = ToLower (TrimSpace raw)"

definition accepted :: "store \<Rightarrow> string \<Rightarrow> string \<Rightarrow> string \<Rightarrow> bool" where
  "accepted db issueID pfx d =
     (issueIDRe d \<and> d \<noteq> issueID \<and> projectPrefixFromIssueID d = (pfx, True)
      \<and> map_of db d \<noteq> None)"


text \<open>
  The example store with two more issues: one blocked by both issues of the example
  store, one blocked by an id that names no row.
\<close>

definition ex_gate_db :: store where
  "ex_gate_db =
     ex_db @ [(''cat-100003'', ex_row\<lparr>blocked_by := [''cat-100001'', ''cat-100002''],
                                       created_at := 3, last_updated_at := 3\<rparr>),
              (''cat-100004'', ex_row\<lparr>blocked_by := [''cat-100009''],
                                       created_at := 4, last_updated_at := 4\<rparr>)]"

text \<open>
  An environment in which the reader gives the number \<open>x\<close> and neither the \<open>INSERT\<close> nor
  the \<open>Commit\<close> is made to fail.
\<close>

definition ex_env :: "nat \<Rightarrow> attempt_env" where
  "ex_env x = \<lparr>rand_Reader = Inr x, insert_failure = None, commit_failure = None\<rparr>"

text \<open>
  A byte that neither begins nor ends the encoding of a white-space character, and a byte
  that lower-casing leaves alone: both hold of the characters of an issue id.
\<close>

definition plain_byte :: "char \<Rightarrow> bool" where
  "plain_byte c = list_all (\<lambda>w. hd w \<noteq> c \<and> last w \<noteq> c) spaceRunes"

definition lower_fixed :: "char \<Rightarrow> bool" where
  "lower_fixed c =
     (isASCII c \<and>
      (case map_of (zip ''ABCDEFGHIJKLMNOPQRSTUVWXYZ'' ''abcdefghijklmnopqrstuvwxyz'') c of
         Some l \<Rightarrow> l | None \<Rightarrow> c) = c)"

section \<open>The state machine and the store: basic facts\<close>

lemmas state_defs = StateTodo_def StateInProgress_def StateBlocked_def StateDone_def
  StateCanceled_def

lemma IsValidState_iff: "IsValidState s \<longleftrightarrow> s \<in> set defined_states"
  by (simp add: IsValidState_def validTransitions_def state_defs defined_states_def)

lemma ValidateTransition_table:
  "from \<in> set defined_states \<Longrightarrow> to \<in> set defined_states \<Longrightarrow> from \<noteq> to \<Longrightarrow>
   ValidateTransition from to =
     (if (from, to) \<in> set spec_transition_table then None
      else Some (Errorf ''%w: %s -> %s'' [W ErrInvalidStateTransition, S from, S to]))"
  by (auto simp add: ValidateTransition_def validTransitions_def state_defs
      spec_transition_table_def defined_states_def)

lemma ValidateTransition_self: "ValidateTransition s s = None"
  by (simp add: ValidateTransition_def)

lemma getIssueByIDTx_Some: "map_of db k = Some r \<Longrightarrow> getIssueByIDTx db k = Inr (scanIssue k r)"
  by (simp add: getIssueByIDTx_def)

lemma getIssueByIDTx_None:
  "map_of db k = None \<Longrightarrow>
   getIssueByIDTx db k = Inl (Errorf ''%w: issue %q not found'' [W ErrNotFound, Q k])"
  by (simp add: getIssueByIDTx_def)

lemma unresolved_loop_all_exist:
  "\<forall>d \<in> set ds. \<not> dep_missing db d \<Longrightarrow>
   unresolvedBlockedByTx_loop db ds acc = Inr (acc @ filter (\<lambda>d. \<not> dep_done db d) ds)"
proof (induction ds arbitrary: acc)
  case Nil
  then show ?case by simp
next
  case (Cons d ds)
  then obtain r where r: "map_of db d = Some r"
    by (auto simp: dep_missing_def)
  from Cons have "\<forall>d \<in> set ds. \<not> dep_missing db d" by simp
  with Cons.IH r show ?case
    by (simp add: getIssueByIDTx_Some scanIssue_def dep_done_def StateDone_def)
qed

lemma unresolved_loop_missing:
  "find (dep_missing db) ds = Some d \<Longrightarrow>
   unresolvedBlockedByTx_loop db ds acc =
     Inl (Errorf ''%w: blocked_by issue %q not found'' [W ErrNotFound, Q d])"
proof (induction ds arbitrary: acc)
  case Nil
  then show ?case by simp
next
  case (Cons x ds)
  show ?case
  proof (cases "dep_missing db x")
    case True
    with Cons.prems have "x = d" by simp
    with True show ?thesis by (simp add: getIssueByIDTx_None dep_missing_def)
  next
    case False
    with Cons.prems have "find (dep_missing db) ds = Some d" by simp
    from Cons.IH[OF this] False show ?thesis
      by (auto simp: getIssueByIDTx_Some dep_missing_def)
  qed
qed

lemma sql_update_hit:
  "map_of db k = Some r \<Longrightarrow> ev = None \<or> ev = Some (version r) \<Longrightarrow>
   sql_update db now k ev f = (AList.map_entry k (\<lambda>r. trg_issues_last_updated_at now (f r)) db, 1)"
  by (auto simp: sql_update_def)

lemma sql_update_stale:
  "map_of db k = Some r \<Longrightarrow> v \<noteq> version r \<Longrightarrow> sql_update db now k (Some v) f = (db, 0)"
  by (auto simp: sql_update_def)

lemma sql_update_absent: "map_of db k = None \<Longrightarrow> sql_update db now k ev f = (db, 0)"
  by (simp add: sql_update_def)

lemma map_of_map_entry_same:
  "map_of db k = Some r \<Longrightarrow> map_of (AList.map_entry k f db) k = Some (f r)"
  by (simp add: map_of_map_entry)

lemma map_of_map_entry_other:
  "k' \<noteq> k \<Longrightarrow> map_of (AList.map_entry k f db) k' = map_of db k'"
  by (simp add: map_of_map_entry)

section \<open>TransitionState: when it succeeds, and what it writes\<close>

lemma transition_row_simps:
  "state (transition_row now to r) = to"
  "version (transition_row now to r) = version r + 1"
  "last_updated_at (transition_row now to r) = now"
  "closed_at (transition_row now to r) =
     (if to = ''done'' \<or> to = ''canceled'' then Some now else None)"
  "category (transition_row now to r) = category r"
  "parent_id (transition_row now to r) = parent_id r"
  "blocked_by (transition_row now to r) = blocked_by r"
  "title (transition_row now to r) = title r"
  "body (transition_row now to r) = body r"
  "created_at (transition_row now to r) = created_at r"
  by (simp_all add: transition_row_def trg_issues_last_updated_at_def
      TransitionState_setParts_def state_defs)

lemma gate_open:
  "\<forall>d \<in> set (blocked_by r). dep_done db d \<Longrightarrow>
   unresolvedBlockedByTx db (scanIssue k r) = Inr []"
proof -
  assume d: "\<forall>d \<in> set (blocked_by r). dep_done db d"
  then have "\<forall>d \<in> set (blocked_by r). \<not> dep_missing db d"
    by (auto simp: dep_done_def dep_missing_def split: option.splits)
  from unresolved_loop_all_exist[OF this, of "[]"] d show ?thesis
    by (simp add: unresolvedBlockedByTx_def scanIssue_def)
qed

lemma TransitionState_ok:
  assumes "map_of db k = Some r" and "IsValidState to"
    and "ValidateTransition (state r) to = None"
    and "to = StateInProgress \<longrightarrow> unresolvedBlockedByTx db (scanIssue k r) = Inr []"
    and "ev = None \<or> ev = Some (version r)"
  shows "TransitionState db now k to ev =
           (AList.map_entry k (transition_row now to) db,
            Inr (scanIssue k (transition_row now to r)))"
proof -
  have upd: "sql_update db now k ev (TransitionState_setParts now to') =
               (AList.map_entry k (transition_row now to') db, 1)" for to'
    using sql_update_hit[OF assms(1) assms(5)] by (simp add: transition_row_def[abs_def])
  have look: "map_of (AList.map_entry k (transition_row now to') db) k =
                Some (transition_row now to' r)" for to'
    using assms(1) by (rule map_of_map_entry_same)
  have st: "State (scanIssue k r) = state r"
    by (simp add: scanIssue_def)
  show ?thesis
    using assms(2,3,4)
    by (simp add: TransitionState_def getIssueByIDTx_Some[OF assms(1)]
        getIssueByIDTx_Some[OF look] st upd)
qed

lemma TransitionState_Inr:
  assumes "TransitionState db now k to ev = (db', Inr i)"
  shows "\<exists>r. map_of db k = Some r \<and> IsValidState to \<and> ValidateTransition (state r) to = None
            \<and> (to = StateInProgress \<longrightarrow> unresolvedBlockedByTx db (scanIssue k r) = Inr [])
            \<and> (ev = None \<or> ev = Some (version r))
            \<and> db' = AList.map_entry k (transition_row now to) db
            \<and> i = scanIssue k (transition_row now to r)"
proof (cases "map_of db k")
  case None
  with assms show ?thesis
    by (simp add: TransitionState_def getIssueByIDTx_None split: if_splits)
next
  case (Some r)
  have st: "State (scanIssue k r) = state r"
    by (simp add: scanIssue_def)
  from assms Some have v: "IsValidState to" and t: "ValidateTransition (state r) to = None"
    by (auto simp: TransitionState_def getIssueByIDTx_Some st split: if_splits option.splits)
  from assms Some v t
  have g: "to = StateInProgress \<longrightarrow> unresolvedBlockedByTx db (scanIssue k r) = Inr []"
    by (auto simp: TransitionState_def getIssueByIDTx_Some st
        split: if_splits option.splits sum.splits)
  have e: "ev = None \<or> ev = Some (version r)"
  proof (rule ccontr)
    assume "\<not> (ev = None \<or> ev = Some (version r))"
    then obtain v where "ev = Some v" "v \<noteq> version r" by auto
    with assms Some v t g sql_update_stale[OF Some, of v now "TransitionState_setParts now to"]
    show False
      by (auto simp: TransitionState_def getIssueByIDTx_Some st
          split: if_splits option.splits sum.splits)
  qed
  from TransitionState_ok[OF Some v t g e, of now] assms Some v t g e show ?thesis
    by simp
qed

lemma TransitionState_Inl:
  "snd (TransitionState db now k to ev) = Inl e \<Longrightarrow> fst (TransitionState db now k to ev) = db"
  by (auto simp: TransitionState_def split: if_splits option.splits sum.splits prod.splits)

lemma TransitionState_stale:
  assumes "map_of db k = Some r" and "v \<noteq> version r"
  shows "TransitionState db now k to (Some v) =
           (db, Inl (case snd (TransitionState db now k to None) of
                       Inl e \<Rightarrow> e
                     | Inr i \<Rightarrow> Errorf ''%w: stale write; expected version %d''
                                 [W ErrConflict, D v]))"
proof -
  have look: "map_of (AList.map_entry k f db) k = Some (f r)" for f
    using assms(1) by (rule map_of_map_entry_same)
  show ?thesis
    by (simp add: TransitionState_def getIssueByIDTx_Some[OF assms(1)]
        getIssueByIDTx_Some[OF look] sql_update_stale[OF assms]
        sql_update_hit[OF assms(1), of None] split: option.splits sum.splits)
qed

lemmas ex_defs = ex_db_def ex_row_def

lemma ex_lookup1: "map_of ex_db ''cat-100001'' = Some (ex_row\<lparr>version := 4, last_updated_at := 6\<rparr>)"
  by (simp add: ex_db_def)

lemma ex_lookup2: "map_of ex_db ''cat-100002'' =
   Some (ex_row\<lparr>state := ''done'', version := 3, blocked_by := [''cat-100001''], created_at := 2,
                last_updated_at := 5, closed_at := Some 5\<rparr>)"
  by (simp add: ex_db_def)

lemma SetParent_stale:
  assumes "map_of db (TrimSpace id0) = Some r" and "v \<noteq> version r"
  shows "SetParent db now id0 p (Some v) =
           (db, Inl (case snd (SetParent db now id0 p None) of
                       Inl e \<Rightarrow> e
                     | Inr i \<Rightarrow> Errorf ''%w: stale write; expected version %d''
                                 [W ErrConflict, D v]))"
proof -
  have look: "map_of (AList.map_entry (TrimSpace id0) f db) (TrimSpace id0) = Some (f r)" for f
    using assms(1) by (rule map_of_map_entry_same)
  show ?thesis
    by (simp add: SetParent_def Let_def getIssueByIDTx_Some[OF assms(1)]
        getIssueByIDTx_Some[OF look] sql_update_stale[OF assms]
        sql_update_hit[OF assms(1), of None] split: option.splits sum.splits prod.splits)
qed

lemma SetBlockedBy_stale:
  assumes "map_of db (TrimSpace id0) = Some r" and "v \<noteq> version r"
  shows "SetBlockedBy db now id0 bb (Some v) =
           (db, Inl (case snd (SetBlockedBy db now id0 bb None) of
                       Inl e \<Rightarrow> e
                     | Inr i \<Rightarrow> Errorf ''%w: stale write; expected version %d''
                                 [W ErrConflict, D v]))"
proof -
  have look: "map_of (AList.map_entry (TrimSpace id0) f db) (TrimSpace id0) = Some (f r)" for f
    using assms(1) by (rule map_of_map_entry_same)
  show ?thesis
    by (simp add: SetBlockedBy_def Let_def getIssueByIDTx_Some[OF assms(1)]
        getIssueByIDTx_Some[OF look] sql_update_stale[OF assms]
        sql_update_hit[OF assms(1), of None] split: option.splits sum.splits prod.splits)
qed

section \<open>Strings: identifiers are fixed by trimming and lower-casing\<close>

declare trimPrefixes.simps [simp del]

lemma trimPrefixes_none:
  assumes "\<forall>w \<in> set ws. \<not> (w \<noteq> [] \<and> HasPrefix s w)"
  shows "trimPrefixes ws s = s"
proof -
  from assms have "find (\<lambda>w. w \<noteq> [] \<and> HasPrefix s w) ws = None"
    by (simp add: find_None_iff)
  then show ?thesis by (subst trimPrefixes.simps) simp
qed

lemma trimPrefixes_hd:
  assumes "\<forall>w \<in> set ws. hd w \<noteq> c"
  shows "trimPrefixes ws (c # cs) = c # cs"
proof (rule trimPrefixes_none, rule ballI)
  fix w assume "w \<in> set ws"
  with assms have "hd w \<noteq> c" by simp
  then show "\<not> (w \<noteq> [] \<and> HasPrefix (c # cs) w)"
    by (cases w) auto
qed

lemma TrimSpace_id:
  assumes "s \<noteq> []" and "plain_byte (hd s)" and "plain_byte (last s)"
  shows "TrimSpace s = s"
proof -
  from assms(1) obtain c cs where s: "s = c # cs" by (cases s) auto
  with assms(2) have "\<forall>w \<in> set spaceRunes. hd w \<noteq> c"
    by (simp add: plain_byte_def list_all_iff)
  then have a: "trimPrefixes spaceRunes s = s"
    unfolding s by (rule trimPrefixes_hd)
  from assms(1) obtain d ds where r: "rev s = d # ds" and d: "d = last s"
    by (cases s rule: rev_cases) auto
  have "\<forall>w \<in> set (map rev spaceRunes). hd w \<noteq> d"
  proof
    fix w assume "w \<in> set (map rev spaceRunes)"
    then obtain v where v: "v \<in> set spaceRunes" "w = rev v" by auto
    then have "v \<noteq> []" by (auto simp: spaceRunes_def)
    with v assms(3) d show "hd w \<noteq> d"
      by (simp add: plain_byte_def list_all_iff hd_rev)
  qed
  then have "trimPrefixes (map rev spaceRunes) (rev s) = rev s"
    unfolding r by (rule trimPrefixes_hd)
  with a show ?thesis by (simp add: TrimSpace_def)
qed

lemma lower_alnum_table:
  "list_all (\<lambda>c. plain_byte c \<and> lower_fixed c \<and> c \<noteq> CHR ''-'')
     ''abcdefghijklmnopqrstuvwxyz0123456789''"
  by code_simp

lemma dash_props: "plain_byte CHR ''-''" "lower_fixed CHR ''-''"
  by code_simp+

lemma isLowerAlnum_props:
  assumes "isLowerAlnum c"
  shows "plain_byte c" and "lower_fixed c" and "c \<noteq> CHR ''-''"
  using assms lower_alnum_table unfolding isLowerAlnum_def list_all_iff by blast+

lemma isDigit_isLowerAlnum: "isDigit c \<Longrightarrow> isLowerAlnum c"
  unfolding isDigit_def isLowerAlnum_def by simp

lemma ToLower_id:
  assumes "\<forall>c \<in> set s. isLowerAlnum c \<or> c = CHR ''-''"
  shows "ToLower s = s"
proof -
  have t: "\<forall>c \<in> set s. lower_fixed c"
    using assms isLowerAlnum_props(2) dash_props(2) by blast
  then have "list_all isASCII s" by (simp add: list_all_iff lower_fixed_def)
  moreover have "map (\<lambda>c. case map_of (zip ''ABCDEFGHIJKLMNOPQRSTUVWXYZ''
                                      ''abcdefghijklmnopqrstuvwxyz'') c of
                       Some l \<Rightarrow> l | None \<Rightarrow> c) s = s"
    using t by (intro map_idI) (simp add: lower_fixed_def)
  ultimately show ?thesis by (simp add: ToLower_def)
qed








lemma issueIDRe_chars:
  assumes "issueIDRe s"
  shows "s \<noteq> []" and "\<forall>c \<in> set s. isLowerAlnum c \<or> c = CHR ''-''"
proof -
  from assms show "s \<noteq> []" by (auto simp: issueIDRe_def)
  have a: "take 1 (drop 3 s) @ drop 1 (drop 3 s) = drop 3 s"
    by (rule append_take_drop_id)
  have b: "drop 1 (drop 3 s) = drop 4 s"
    by simp
  have "take 3 s @ drop 3 s = s"
    by (rule append_take_drop_id)
  then have s: "s = take 3 s @ take 1 (drop 3 s) @ drop 4 s"
    using a[unfolded b] by (simp only:)
  from assms have "\<forall>c \<in> set (take 3 s). isLowerAlnum c"
    and "\<forall>c \<in> set (drop 4 s). isLowerAlnum c" and "take 1 (drop 3 s) = ''-''"
    by (auto simp: issueIDRe_def projectPrefixRe_def list_all_iff isDigit_isLowerAlnum)
  then have "\<forall>c \<in> set (take 3 s @ take 1 (drop 3 s) @ drop 4 s). isLowerAlnum c \<or> c = CHR ''-''"
    by auto
  with s show "\<forall>c \<in> set s. isLowerAlnum c \<or> c = CHR ''-''" by simp
qed

lemma issueIDRe_fixed:
  assumes "issueIDRe s"
  shows "ToLower (TrimSpace s) = s"
proof -
  note c = issueIDRe_chars[OF assms]
  have ns: "plain_byte x" if "x \<in> set s" for x
    using c(2) that isLowerAlnum_props(1) dash_props(1) by blast
  have "TrimSpace s = s"
    by (rule TrimSpace_id) (use c(1) ns in simp_all)
  with ToLower_id[OF c(2)] show ?thesis by simp
qed

section \<open>SetParent and SetBlockedBy: when they succeed, and what they write\<close>

lemmas category_defs = CategoryTask_def CategoryWorkstream_def CategoryProject_def

lemma ProjectPrefix_scanIssue: "ProjectPrefix (scanIssue k r) = project_of k"
  by (simp add: scanIssue_def project_of_def)

lemma scanIssue_simps:
  "ID (scanIssue k r) = k" "Category (scanIssue k r) = category r"
  "State (scanIssue k r) = state r" "ParentID (scanIssue k r) = parent_id r"
  "Version (scanIssue k r) = version r" "BlockedBy (scanIssue k r) = blocked_by r"
  "ClosedAt (scanIssue k r) = closed_at r" "LastUpdatedAt (scanIssue k r) = last_updated_at r"
  "CreatedAt (scanIssue k r) = created_at r" "Title (scanIssue k r) = title r"
  "Body (scanIssue k r) = body r"
  by (simp_all add: scanIssue_def)

lemma setparent_row_simps:
  "parent_id (setparent_row now np r) = np"
  "version (setparent_row now np r) = version r + 1"
  "last_updated_at (setparent_row now np r) = now"
  "state (setparent_row now np r) = state r"
  "closed_at (setparent_row now np r) = closed_at r"
  "category (setparent_row now np r) = category r"
  "blocked_by (setparent_row now np r) = blocked_by r"
  by (simp_all add: setparent_row_def trg_issues_last_updated_at_def)

lemma setblockedby_row_simps:
  "blocked_by (setblockedby_row now bb r) = bb"
  "version (setblockedby_row now bb r) = version r + 1"
  "last_updated_at (setblockedby_row now bb r) = now"
  "state (setblockedby_row now bb r) = state r"
  "closed_at (setblockedby_row now bb r) = closed_at r"
  "category (setblockedby_row now bb r) = category r"
  "parent_id (setblockedby_row now bb r) = parent_id r"
  by (simp_all add: setblockedby_row_def trg_issues_last_updated_at_def)

lemma SetParent_conv:
  assumes "map_of db (TrimSpace id0) = Some r" and "TrimSpace id0 \<noteq> ''''"
  shows "parent_ok db (category r) (project_of (TrimSpace id0)) (effective_parent p) \<Longrightarrow>
         ev = None \<or> ev = Some (version r) \<Longrightarrow>
         SetParent db now id0 p ev =
           (AList.map_entry (TrimSpace id0) (setparent_row now (effective_parent p)) db,
            Inr (scanIssue (TrimSpace id0) (setparent_row now (effective_parent p) r)))"
    and "\<not> parent_ok db (category r) (project_of (TrimSpace id0)) (effective_parent p) \<Longrightarrow>
         \<exists>e. SetParent db now id0 p ev = (db, Inl e)
              \<and> (errors_Is e ErrInvalidInput \<or> errors_Is e ErrNotFound)"
proof -
  let ?k = "TrimSpace id0"
  have look: "map_of (AList.map_entry ?k f db) ?k = Some (f r)" for f
    using assms(1) by (rule map_of_map_entry_same)
  have upd: "ev' = None \<or> ev' = Some (version r) \<Longrightarrow>
     sql_update db now ?k ev' (\<lambda>r. r\<lparr>parent_id := np, version := version r + 1,
                      last_updated_at := now\<rparr>) =
       (AList.map_entry ?k (setparent_row now np) db, 1)" for np ev'
    using sql_update_hit[OF assms(1), of ev' now] by (simp add: setparent_row_def[abs_def])
  show "parent_ok db (category r) (project_of ?k) (effective_parent p) \<Longrightarrow>
         ev = None \<or> ev = Some (version r) \<Longrightarrow>
         SetParent db now id0 p ev =
           (AList.map_entry ?k (setparent_row now (effective_parent p)) db,
            Inr (scanIssue ?k (setparent_row now (effective_parent p) r)))"
    using assms
    by (auto simp: SetParent_def Let_def scanIssue_simps
        ProjectPrefix_scanIssue expectedParentCategory_def category_defs parent_ok_def
        has_parent_def effective_parent_def upd getIssueByIDTx_Some[OF look]
        getIssueByIDTx_def[of db]
        split: option.splits if_splits)
  show "\<not> parent_ok db (category r) (project_of ?k) (effective_parent p) \<Longrightarrow>
         \<exists>e. SetParent db now id0 p ev = (db, Inl e)
              \<and> (errors_Is e ErrInvalidInput \<or> errors_Is e ErrNotFound)"
    using assms
    by (auto simp: SetParent_def Let_def scanIssue_simps
        ProjectPrefix_scanIssue expectedParentCategory_def category_defs parent_ok_def
        has_parent_def effective_parent_def 
        getIssueByIDTx_def[of db]
        split: option.splits if_splits)
qed

section \<open>Dependency normalization: the loop\<close>

lemma issueIDRe_nonempty: "issueIDRe d \<Longrightarrow> d \<noteq> ''''"
  using issueIDRe_chars(1) by blast

lemma normalize_id_fixed: "issueIDRe d \<Longrightarrow> normalize_id d = d"
  by (simp add: normalize_id_def issueIDRe_fixed)

lemma project_of_accepted: "accepted db iid pfx d \<Longrightarrow> project_of d = pfx"
  by (simp add: accepted_def project_of_def)

text \<open>One round of the loop, said with \<open>accepted\<close>.\<close>

lemma norm_loop_Cons:
  "normalizeBlockedByTx_loop db iid pfx (raw # rest) seen out =
     (if normalize_id raw = '''' then normalizeBlockedByTx_loop db iid pfx rest seen out
      else if \<not> issueIDRe (normalize_id raw)
      then Inl (Errorf ''%w: invalid blocked_by issue id %q''
                  [W ErrInvalidInput, Q (normalize_id raw)])
      else if normalize_id raw = iid
      then Inl (Errorf ''%w: blocked_by cannot include self'' [W ErrInvalidInput])
      else if seen (normalize_id raw) then normalizeBlockedByTx_loop db iid pfx rest seen out
      else if \<not> accepted db iid pfx (normalize_id raw)
      then (if projectPrefixFromIssueID (normalize_id raw) = (pfx, True)
            then Inl (Errorf ''%w: blocked_by issue %q not found''
                        [W ErrNotFound, Q (normalize_id raw)])
            else Inl (Errorf ''%w: blocked_by issue must be in same project: %q''
                        [W ErrInvalidInput, Q (normalize_id raw)]))
      else normalizeBlockedByTx_loop db iid pfx rest (seen(normalize_id raw := True))
             (out @ [normalize_id raw]))"
  by (auto simp: normalize_id_def[symmetric] Let_def accepted_def getIssueByIDTx_def
      ProjectPrefix_scanIssue project_of_def split: prod.splits option.splits)

declare normalizeBlockedByTx_loop.simps(2) [simp del]

lemma norm_loop_Inr:
  "normalizeBlockedByTx_loop db iid pfx xs seen out = Inr res \<Longrightarrow>
   \<exists>ys. res = out @ ys \<and> distinct ys \<and> (\<forall>d \<in> set ys. accepted db iid pfx d \<and> \<not> seen d)
        \<and> (\<forall>x \<in> set xs. normalize_id x = '''' \<or> seen (normalize_id x)
                            \<or> normalize_id x \<in> set ys)
        \<and> (\<forall>x \<in> set xs. normalize_id x \<noteq> '''' \<longrightarrow>
              issueIDRe (normalize_id x) \<and> normalize_id x \<noteq> iid)"
proof (induction xs arbitrary: seen out res)
  case Nil
  then show ?case by simp
next
  case (Cons raw rest)
  let ?d = "normalize_id raw"
  show ?case
  proof (cases "?d = ''''")
    case True
    with Cons.prems have "normalizeBlockedByTx_loop db iid pfx rest seen out = Inr res"
      by (simp add: norm_loop_Cons)
    from Cons.IH[OF this] True show ?thesis by auto
  next
    case False
    with Cons.prems have re: "issueIDRe ?d" and ns: "?d \<noteq> iid"
      by (auto simp: norm_loop_Cons split: if_splits)
    show ?thesis
    proof (cases "seen ?d")
      case True
      with Cons.prems False re ns
      have "normalizeBlockedByTx_loop db iid pfx rest seen out = Inr res"
        by (simp add: norm_loop_Cons)
      from Cons.IH[OF this] True re ns show ?thesis by auto
    next
      case unseen: False
      with Cons.prems False re ns have acc: "accepted db iid pfx ?d"
        by (auto simp: norm_loop_Cons split: if_splits)
      with Cons.prems False re ns unseen
      have "normalizeBlockedByTx_loop db iid pfx rest (seen(?d := True)) (out @ [?d]) = Inr res"
        by (simp add: norm_loop_Cons)
      from Cons.IH[OF this] obtain ys where
        ys: "res = (out @ [?d]) @ ys" "distinct ys"
          "\<forall>d \<in> set ys. accepted db iid pfx d \<and> \<not> (seen(?d := True)) d"
          "\<forall>x \<in> set rest. normalize_id x = '''' \<or> (seen(?d := True)) (normalize_id x)
                            \<or> normalize_id x \<in> set ys"
          "\<forall>x \<in> set rest. normalize_id x \<noteq> '''' \<longrightarrow>
              issueIDRe (normalize_id x) \<and> normalize_id x \<noteq> iid"
        by blast
      have "res = out @ (?d # ys)" using ys(1) by simp
      moreover have "distinct (?d # ys)" using ys(2,3) by auto
      moreover have "\<forall>d \<in> set (?d # ys). accepted db iid pfx d \<and> \<not> seen d"
        using ys(3) acc unseen by (auto split: if_splits)
      moreover have "\<forall>x \<in> set (raw # rest). normalize_id x = '''' \<or> seen (normalize_id x)
                            \<or> normalize_id x \<in> set (?d # ys)"
        using ys(4) by (auto split: if_splits)
      moreover have "\<forall>x \<in> set (raw # rest). normalize_id x \<noteq> '''' \<longrightarrow>
              issueIDRe (normalize_id x) \<and> normalize_id x \<noteq> iid"
        using ys(5) re ns by auto
      ultimately show ?thesis by blast
    qed
  qed
qed

lemma norm_loop_ok:
  "\<forall>d \<in> set ds. accepted db iid pfx d \<and> \<not> seen d \<Longrightarrow> distinct ds \<Longrightarrow>
   normalizeBlockedByTx_loop db iid pfx ds seen out = Inr (out @ ds)"
proof (induction ds arbitrary: seen out)
  case Nil
  then show ?case by simp
next
  case (Cons d ds)
  then have acc: "accepted db iid pfx d" and unseen: "\<not> seen d" by simp_all
  then have re: "issueIDRe d" and ns: "d \<noteq> iid" by (simp_all add: accepted_def)
  have fx: "normalize_id d = d" using re by (rule normalize_id_fixed)
  have step: "normalizeBlockedByTx_loop db iid pfx (d # ds) seen out =
              normalizeBlockedByTx_loop db iid pfx ds (seen(d := True)) (out @ [d])"
    using acc unseen re ns issueIDRe_nonempty[OF re] by (simp add: norm_loop_Cons fx)
  have ih: "normalizeBlockedByTx_loop db iid pfx ds (seen(d := True)) (out @ [d]) =
              Inr ((out @ [d]) @ ds)"
    by (rule Cons.IH) (use Cons.prems in auto)
  show ?case unfolding step ih by simp
qed

lemma norm_loop_self:
  "iid \<noteq> '''' \<Longrightarrow> iid \<in> normalize_id ` set xs \<Longrightarrow>
   \<exists>e. normalizeBlockedByTx_loop db iid pfx xs seen out = Inl e"
proof (induction xs arbitrary: seen out)
  case Nil
  then show ?case by simp
next
  case (Cons raw rest)
  show ?case
  proof (cases "normalize_id raw = iid")
    case True
    with Cons.prems(1) show ?thesis by (simp add: norm_loop_Cons)
  next
    case False
    with Cons.prems have "iid \<in> normalize_id ` set rest" by auto
    from Cons.IH[OF Cons.prems(1) this] show ?thesis
      by (simp add: norm_loop_Cons)
  qed
qed

lemma norm_loop_append:
  "normalizeBlockedByTx_loop db iid pfx (xs @ ys) seen out =
     (case normalizeBlockedByTx_loop db iid pfx xs seen out of
        Inl e \<Rightarrow> Inl e
      | Inr res \<Rightarrow>
          normalizeBlockedByTx_loop db iid pfx ys
            (\<lambda>d. seen d \<or> d \<in> set (drop (length out) res)) res)"
proof (induction xs arbitrary: seen out)
  case Nil
  then show ?case by simp
next
  case (Cons raw rest)
  let ?d = "normalize_id raw"
  show ?case
  proof (cases "?d \<noteq> [] \<and> issueIDRe ?d \<and> ?d \<noteq> iid \<and> \<not> seen ?d \<and> accepted db iid pfx ?d")
    case False
    then show ?thesis
      by (auto simp: norm_loop_Cons Cons.IH)
  next
    case True
    then have l: "normalizeBlockedByTx_loop db iid pfx ((raw # rest) @ ys) seen out =
                  normalizeBlockedByTx_loop db iid pfx (rest @ ys) (seen(?d := True)) (out @ [?d])"
      and r: "normalizeBlockedByTx_loop db iid pfx (raw # rest) seen out =
                  normalizeBlockedByTx_loop db iid pfx rest (seen(?d := True)) (out @ [?d])"
      by (simp_all add: norm_loop_Cons)
    show ?thesis
    proof (cases "normalizeBlockedByTx_loop db iid pfx rest (seen(?d := True)) (out @ [?d])")
      case (Inl e)
      then show ?thesis unfolding l r Cons.IH by simp
    next
      case (Inr res)
      from norm_loop_Inr[OF this] obtain zs where zs: "res = (out @ [?d]) @ zs" by blast
      have "(\<lambda>x. (seen(?d := True)) x \<or> x \<in> set (drop (length (out @ [?d])) res)) =
            (\<lambda>x. seen x \<or> x \<in> set (drop (length out) res))"
        by (rule ext) (simp add: zs)
      with Inr show ?thesis unfolding l r Cons.IH by simp
    qed
  qed
qed

lemma norm_loop_repeat:
  assumes "normalizeBlockedByTx_loop db iid pfx xs seen out = Inr res"
    and "x \<in> set xs"
  shows "normalizeBlockedByTx_loop db iid pfx (xs @ [x]) seen out = Inr res"
proof -
  from norm_loop_Inr[OF assms(1)] obtain ys where ys: "res = out @ ys"
    and cov: "\<forall>x \<in> set xs. normalize_id x = [] \<or> seen (normalize_id x)
                            \<or> normalize_id x \<in> set ys"
    and wf: "\<forall>x \<in> set xs. normalize_id x \<noteq> [] \<longrightarrow>
              issueIDRe (normalize_id x) \<and> normalize_id x \<noteq> iid"
    by blast
  let ?seen = "\<lambda>d. seen d \<or> d \<in> set (drop (length out) res)"
  have "normalizeBlockedByTx_loop db iid pfx [x] ?seen res = Inr res"
    using cov wf assms(2) ys by (auto simp: norm_loop_Cons)
  then show ?thesis
    by (simp add: norm_loop_append assms(1))
qed

section \<open>SetBlockedBy and one attempt of CreateIssue\<close>

lemma HasPrefix_iff: "HasPrefix s sub = (\<exists>b. s = sub @ b)"
  by (induction s sub rule: HasPrefix.induct) auto

lemma Contains_iff: "Contains s sub = (\<exists>a b. s = a @ sub @ b)"
proof (induction s)
  case Nil
  then show ?case by simp
next
  case (Cons c cs)
  have "(\<exists>a b. c # cs = a @ sub @ b) = ((\<exists>b. c # cs = sub @ b) \<or> (\<exists>a b. cs = a @ sub @ b))"
  proof
    assume "\<exists>a b. c # cs = a @ sub @ b"
    then obtain a b where ab: "c # cs = a @ sub @ b" by blast
    show "(\<exists>b. c # cs = sub @ b) \<or> (\<exists>a b. cs = a @ sub @ b)"
    proof (cases a)
      case Nil
      with ab show ?thesis by auto
    next
      case (Cons x a')
      with ab have "cs = a' @ sub @ b" by simp
      then show ?thesis by blast
    qed
  next
    assume "(\<exists>b. c # cs = sub @ b) \<or> (\<exists>a b. cs = a @ sub @ b)"
    then show "\<exists>a b. c # cs = a @ sub @ b"
    proof
      assume "\<exists>b. c # cs = sub @ b"
      then obtain b where "c # cs = [] @ sub @ b" by auto
      then show ?thesis by blast
    next
      assume "\<exists>a b. cs = a @ sub @ b"
      then obtain a b where "c # cs = (c # a) @ sub @ b" by auto
      then show ?thesis by blast
    qed
  qed
  with Cons show ?case by (simp add: HasPrefix_iff del: HasPrefix.simps)
qed

lemma isUniqueViolation_iff:
  "isUniqueViolation msg = (\<exists>a b. ToLower msg = a @ ''unique'' @ b)"
  unfolding isUniqueViolation_def by (rule Contains_iff)

lemma isUniqueViolation_busy:
  "\<not> isUniqueViolation ''database is locked (5) (SQLITE_BUSY)''"
  by (simp add: isUniqueViolation_def ToLower_def isASCII_def)

lemma isUniqueViolation_pk:
  "isUniqueViolation ''constraint failed: UNIQUE constraint failed: issues.id (1555)''"
  by (simp add: isUniqueViolation_def ToLower_def isASCII_def)

lemma sql_insert_conv:
  "sql_insert db k r None =
     (if map_of db k \<noteq> None
      then Inl ''constraint failed: UNIQUE constraint failed: issues.id (1555)''
      else Inr (db @ [(k, r)]))"
  "sql_insert db k r (Some msg) = Inl msg"
  by (simp_all add: sql_insert_def)

lemma randomIssueNumber_conv:
  "randomIssueNumber (Inl msg) = Inl (ExternalErr msg)"
  "randomIssueNumber (Inr x) = Inr (100000 + int x mod 900000)"
  by (simp_all add: randomIssueNumber_def rand_Int_def)

lemma randomIssueNumber_Inl:
  assumes "randomIssueNumber rd = Inl err"
  obtains msg where "rd = Inl msg" and "err = ExternalErr msg"
  using assms by (cases rd) (simp_all add: randomIssueNumber_conv)

lemma map_of_snoc_fresh:
  "map_of db k = None \<Longrightarrow>
   map_of (db @ [(k, r)]) k' = (if k' = k then Some r else map_of db k')"
  by (auto simp: map_add_def split: option.splits)

lemma SetBlockedBy_conv:
  assumes "map_of db (TrimSpace id0) = Some r" and "TrimSpace id0 \<noteq> ''''"
  shows "normalizeBlockedByTx db (TrimSpace id0) (project_of (TrimSpace id0)) bb = Inr nb \<Longrightarrow>
         ev = None \<or> ev = Some (version r) \<Longrightarrow>
         SetBlockedBy db now id0 bb ev =
           (AList.map_entry (TrimSpace id0) (setblockedby_row now nb) db,
            Inr (scanIssue (TrimSpace id0) (setblockedby_row now nb r)))"
    and "normalizeBlockedByTx db (TrimSpace id0) (project_of (TrimSpace id0)) bb = Inl e \<Longrightarrow>
         SetBlockedBy db now id0 bb ev = (db, Inl e)"
proof -
  let ?k = "TrimSpace id0"
  have look: "map_of (AList.map_entry ?k f db) ?k = Some (f r)" for f
    using assms(1) by (rule map_of_map_entry_same)
  have upd: "ev' = None \<or> ev' = Some (version r) \<Longrightarrow>
     sql_update db now ?k ev' (\<lambda>r. r\<lparr>blocked_by := nb', version := version r + 1,
                      last_updated_at := now\<rparr>) =
       (AList.map_entry ?k (setblockedby_row now nb') db, 1)" for nb' ev'
    using sql_update_hit[OF assms(1), of ev' now] by (simp add: setblockedby_row_def[abs_def])
  show "normalizeBlockedByTx db ?k (project_of ?k) bb = Inr nb \<Longrightarrow>
         ev = None \<or> ev = Some (version r) \<Longrightarrow>
         SetBlockedBy db now id0 bb ev =
           (AList.map_entry ?k (setblockedby_row now nb) db,
            Inr (scanIssue ?k (setblockedby_row now nb r)))"
    using assms(2)
    by (simp add: SetBlockedBy_def Let_def getIssueByIDTx_Some[OF assms(1)] scanIssue_simps
        ProjectPrefix_scanIssue upd getIssueByIDTx_Some[OF look])
  show "normalizeBlockedByTx db ?k (project_of ?k) bb = Inl e \<Longrightarrow>
         SetBlockedBy db now id0 bb ev = (db, Inl e)"
    using assms(2)
    by (simp add: SetBlockedBy_def Let_def getIssueByIDTx_Some[OF assms(1)] scanIssue_simps
        ProjectPrefix_scanIssue)
qed

lemma CreateIssue_attempt_conv:
  fixes n :: int and pfx :: string
  assumes rn: "randomIssueNumber (rand_Reader env) = Inr n"
  defines "k \<equiv> pfx @ ''-'' @ fmt_d n"
  shows "\<not> parent_ok db cat pfx (effective_parent p) \<Longrightarrow>
         \<exists>e. CreateIssue_attempt db now pfx cat ttl bdy p bb env = Return (db, Inl e)
              \<and> (errors_Is e ErrInvalidInput \<or> errors_Is e ErrNotFound)"
    and "parent_ok db cat pfx (effective_parent p) \<Longrightarrow>
         normalizeBlockedByTx db k pfx bb = Inl e \<Longrightarrow>
         CreateIssue_attempt db now pfx cat ttl bdy p bb env = Return (db, Inl e)"
    and "parent_ok db cat pfx (effective_parent p) \<Longrightarrow>
         normalizeBlockedByTx db k pfx bb = Inr nb \<Longrightarrow>
         insert_failure env = None \<Longrightarrow>
         map_of db k \<noteq> None \<Longrightarrow>
         CreateIssue_attempt db now pfx cat ttl bdy p bb env = Continue"
    and "parent_ok db cat pfx (effective_parent p) \<Longrightarrow>
         normalizeBlockedByTx db k pfx bb = Inr nb \<Longrightarrow>
         insert_failure env = None \<Longrightarrow>
         map_of db k = None \<Longrightarrow>
         commit_failure env = None \<Longrightarrow>
         CreateIssue_attempt db now pfx cat ttl bdy p bb env =
           Return (db @ [(k, created_row now cat ttl bdy (effective_parent p) nb)],
                   Inr (scanIssue k (created_row now cat ttl bdy (effective_parent p) nb)))"
    and "parent_ok db cat pfx (effective_parent p) \<Longrightarrow>
         normalizeBlockedByTx db k pfx bb = Inr nb \<Longrightarrow>
         insert_failure env = Some msg \<Longrightarrow>
         CreateIssue_attempt db now pfx cat ttl bdy p bb env =
           (if isUniqueViolation msg then Continue else Return (db, Inl (ExternalErr msg)))"
    and "parent_ok db cat pfx (effective_parent p) \<Longrightarrow>
         normalizeBlockedByTx db k pfx bb = Inr nb \<Longrightarrow>
         insert_failure env = None \<Longrightarrow>
         map_of db k = None \<Longrightarrow>
         commit_failure env = Some msg \<Longrightarrow>
         CreateIssue_attempt db now pfx cat ttl bdy p bb env =
           (if isUniqueViolation msg then Continue else Return (db, Inl (ExternalErr msg)))"
proof -
  show "\<not> parent_ok db cat pfx (effective_parent p) \<Longrightarrow>
         \<exists>e. CreateIssue_attempt db now pfx cat ttl bdy p bb env = Return (db, Inl e)
              \<and> (errors_Is e ErrInvalidInput \<or> errors_Is e ErrNotFound)"
    by (auto simp: CreateIssue_attempt_def rn Let_def
        expectedParentCategory_def category_defs parent_ok_def has_parent_def
        effective_parent_def getIssueByIDTx_def scanIssue_simps ProjectPrefix_scanIssue
        split: option.splits if_splits)
  have pc: "parent_ok db cat pfx (effective_parent p) \<Longrightarrow>
     CreateIssue_attempt db now pfx cat ttl bdy p bb env =
       (case normalizeBlockedByTx db k pfx bb of
         Inl err \<Rightarrow> Return (db, Inl err)
       | Inr normalizedBlockedBy \<Rightarrow>
      (case sql_insert db k
              (created_row now cat ttl bdy (effective_parent p) normalizedBlockedBy)
              (insert_failure env) of
         Inl msg \<Rightarrow>
           if isUniqueViolation msg then Continue else Return (db, Inl (ExternalErr msg))
       | Inr tx \<Rightarrow>
           (case getIssueByIDTx tx k of
              Inl err \<Rightarrow> Return (db, Inl err)
            | Inr issue \<Rightarrow>
                (case tx_Commit tx (commit_failure env) of
                   Inl msg \<Rightarrow>
                     if isUniqueViolation msg then Continue
                     else Return (db, Inl (ExternalErr msg))
                 | Inr db' \<Rightarrow> Return (db', Inr issue)))))"
    unfolding k_def
    by (auto simp: CreateIssue_attempt_def rn Let_def created_row_def
        expectedParentCategory_def category_defs parent_ok_def has_parent_def
        effective_parent_def getIssueByIDTx_def[of db] scanIssue_simps ProjectPrefix_scanIssue
        split: option.splits if_splits sum.splits)
  show "parent_ok db cat pfx (effective_parent p) \<Longrightarrow>
         normalizeBlockedByTx db k pfx bb = Inl e \<Longrightarrow>
         CreateIssue_attempt db now pfx cat ttl bdy p bb env = Return (db, Inl e)"
    by (simp add: pc)
  show "parent_ok db cat pfx (effective_parent p) \<Longrightarrow>
         normalizeBlockedByTx db k pfx bb = Inr nb \<Longrightarrow>
         insert_failure env = None \<Longrightarrow>
         map_of db k \<noteq> None \<Longrightarrow>
         CreateIssue_attempt db now pfx cat ttl bdy p bb env = Continue"
    by (simp add: pc sql_insert_conv isUniqueViolation_pk)
  show "parent_ok db cat pfx (effective_parent p) \<Longrightarrow>
         normalizeBlockedByTx db k pfx bb = Inr nb \<Longrightarrow>
         insert_failure env = None \<Longrightarrow>
         map_of db k = None \<Longrightarrow>
         commit_failure env = None \<Longrightarrow>
         CreateIssue_attempt db now pfx cat ttl bdy p bb env =
           Return (db @ [(k, created_row now cat ttl bdy (effective_parent p) nb)],
                   Inr (scanIssue k (created_row now cat ttl bdy (effective_parent p) nb)))"
    by (simp add: pc sql_insert_conv getIssueByIDTx_def map_add_def tx_Commit_def)
  show "parent_ok db cat pfx (effective_parent p) \<Longrightarrow>
         normalizeBlockedByTx db k pfx bb = Inr nb \<Longrightarrow>
         insert_failure env = Some msg \<Longrightarrow>
         CreateIssue_attempt db now pfx cat ttl bdy p bb env =
           (if isUniqueViolation msg then Continue else Return (db, Inl (ExternalErr msg)))"
    by (simp add: pc sql_insert_conv)
  show "parent_ok db cat pfx (effective_parent p) \<Longrightarrow>
         normalizeBlockedByTx db k pfx bb = Inr nb \<Longrightarrow>
         insert_failure env = None \<Longrightarrow>
         map_of db k = None \<Longrightarrow>
         commit_failure env = Some msg \<Longrightarrow>
         CreateIssue_attempt db now pfx cat ttl bdy p bb env =
           (if isUniqueViolation msg then Continue else Return (db, Inl (ExternalErr msg)))"
    by (simp add: pc sql_insert_conv getIssueByIDTx_def map_add_def tx_Commit_def)
qed

section \<open>The loop of CreateIssue\<close>

declare CreateIssue_loop.simps [simp del]

lemma CreateIssue_attempt_Inl:
  "randomIssueNumber (rand_Reader env) = Inl err \<Longrightarrow>
   CreateIssue_attempt db now pfx cat ttl bdy p bb env = Return (db, Inl err)"
  by (simp add: CreateIssue_attempt_def)

lemma CreateIssue_attempt_Return:
  assumes "CreateIssue_attempt db now pfx cat ttl bdy p bb env = Return res"
  obtains (fail) e where "res = (db, Inl e)"
  | (ok) n nb where "randomIssueNumber (rand_Reader env) = Inr n"
      and "parent_ok db cat pfx (effective_parent p)"
      and "normalizeBlockedByTx db (pfx @ ''-'' @ fmt_d n) pfx bb = Inr nb"
      and "map_of db (pfx @ ''-'' @ fmt_d n) = None"
      and "res = (db @ [(pfx @ ''-'' @ fmt_d n,
                        created_row now cat ttl bdy (effective_parent p) nb)],
                  Inr (scanIssue (pfx @ ''-'' @ fmt_d n)
                         (created_row now cat ttl bdy (effective_parent p) nb)))"
proof (cases "randomIssueNumber (rand_Reader env)")
  case (Inl err)
  from CreateIssue_attempt_Inl[OF this, of db now pfx cat ttl bdy p bb] assms fail
  show ?thesis by auto
next
  case rn: (Inr n)
  let ?k = "pfx @ ''-'' @ fmt_d n"
  note conv = CreateIssue_attempt_conv[OF rn, where db = db and now = now and pfx = pfx
      and cat = cat and ttl = ttl and bdy = bdy and p = p and bb = bb]
  show ?thesis
  proof (cases "parent_ok db cat pfx (effective_parent p)")
    case False
    from conv(1)[OF this] assms fail show ?thesis by auto
  next
    case True
    show ?thesis
    proof (cases "normalizeBlockedByTx db ?k pfx bb")
      case (Inl e)
      from conv(2)[OF True this] assms fail show ?thesis by auto
    next
      case nb: (Inr nb)
      show ?thesis
      proof (cases "insert_failure env")
        case (Some msg)
        from conv(5)[OF True nb this] assms fail show ?thesis
          by (auto split: if_splits)
      next
        case ins: None
        show ?thesis
        proof (cases "map_of db ?k")
          case (Some r)
          then have "map_of db ?k \<noteq> None" by simp
          from conv(3)[OF True nb ins this] assms show ?thesis by simp
        next
          case None
          show ?thesis
          proof (cases "commit_failure env")
            case (Some msg)
            from conv(6)[OF True nb ins None this] assms fail show ?thesis
              by (auto split: if_splits)
          next
            case com: None
            from conv(4)[OF True nb ins None com] assms
            have "res = (db @ [(?k, created_row now cat ttl bdy (effective_parent p) nb)],
                  Inr (scanIssue ?k (created_row now cat ttl bdy (effective_parent p) nb)))"
              by simp
            with ok[OF rn True nb None] show ?thesis by blast
          qed
        qed
      qed
    qed
  qed
qed

lemma CreateIssue_loop_step:
  "attempt < maxCreateAttempts \<Longrightarrow>
   CreateIssue_loop db now pfx cat ttl bdy p bb envs attempt =
     (case CreateIssue_attempt db now pfx cat ttl bdy p bb (envs attempt) of
        Continue \<Rightarrow> CreateIssue_loop db now pfx cat ttl bdy p bb envs (attempt + 1)
      | Return r \<Rightarrow> r)"
  by (subst CreateIssue_loop.simps) simp

lemma CreateIssue_loop_end:
  "\<not> attempt < maxCreateAttempts \<Longrightarrow>
   CreateIssue_loop db now pfx cat ttl bdy p bb envs attempt =
     (db, Inl (Errorf ''%w: failed to allocate issue number after retries'' [W ErrConflict]))"
  by (subst CreateIssue_loop.simps) simp

text \<open>Whatever holds of every result an attempt returns, and of giving up, holds of the loop.\<close>

lemma CreateIssue_loop_result:
  assumes "\<And>i r. i < maxCreateAttempts \<Longrightarrow>
             CreateIssue_attempt db now pfx cat ttl bdy p bb (envs i) = Return r \<Longrightarrow> P r"
    and "P (db, Inl (Errorf ''%w: failed to allocate issue number after retries''
                       [W ErrConflict]))"
  shows "P (CreateIssue_loop db now pfx cat ttl bdy p bb envs attempt)"
  using assms
proof (induction db now pfx cat ttl bdy p bb envs attempt rule: CreateIssue_loop.induct)
  case (1 db now pfx cat ttl bdy p bb envs attempt)
  show ?case
  proof (cases "attempt < maxCreateAttempts")
    case False
    with 1(3) show ?thesis by (simp add: CreateIssue_loop_end)
  next
    case True
    show ?thesis
    proof (cases "CreateIssue_attempt db now pfx cat ttl bdy p bb (envs attempt)")
      case Continue
      with 1(1)[OF True Continue] 1(2,3) True show ?thesis
        by (simp add: CreateIssue_loop_step)
    next
      case (Return r)
      with 1(2)[OF True Return] True show ?thesis
        by (simp add: CreateIssue_loop_step)
    qed
  qed
qed

lemma CreateIssue_loop_draws:
  assumes "\<forall>i < maxCreateAttempts. envs i = envs' i"
  shows "CreateIssue_loop db now pfx cat ttl bdy p bb envs attempt =
         CreateIssue_loop db now pfx cat ttl bdy p bb envs' attempt"
  using assms
proof (induction db now pfx cat ttl bdy p bb envs attempt rule: CreateIssue_loop.induct)
  case (1 db now pfx cat ttl bdy p bb envs attempt)
  show ?case
  proof (cases "attempt < maxCreateAttempts")
    case False
    then show ?thesis by (simp add: CreateIssue_loop_end)
  next
    case True
    with 1(2) have d: "envs attempt = envs' attempt" by simp
    show ?thesis
    proof (cases "CreateIssue_attempt db now pfx cat ttl bdy p bb (envs attempt)")
      case Continue
      with 1(1)[OF True Continue 1(2)] True d show ?thesis
        by (simp add: CreateIssue_loop_step)
    next
      case (Return r)
      with True d show ?thesis
        by (simp add: CreateIssue_loop_step)
    qed
  qed
qed

lemma CreateIssue_loop_all_collide:
  assumes "\<forall>i < maxCreateAttempts.
             CreateIssue_attempt db now pfx cat ttl bdy p bb (envs i) = Continue"
  shows "CreateIssue_loop db now pfx cat ttl bdy p bb envs attempt =
           (db, Inl (Errorf ''%w: failed to allocate issue number after retries''
                       [W ErrConflict]))"
  using assms
proof (induction db now pfx cat ttl bdy p bb envs attempt rule: CreateIssue_loop.induct)
  case (1 db now pfx cat ttl bdy p bb envs attempt)
  show ?case
  proof (cases "attempt < maxCreateAttempts")
    case False
    then show ?thesis by (simp add: CreateIssue_loop_end)
  next
    case True
    with 1(2) have c: "CreateIssue_attempt db now pfx cat ttl bdy p bb (envs attempt) = Continue"
      by simp
    from 1(1)[OF True c 1(2)] True c show ?thesis
      by (simp add: CreateIssue_loop_step)
  qed
qed

text \<open>The first attempt that returns decides the result.\<close>

lemma CreateIssue_loop_first_return:
  assumes "\<forall>i < j. attempt \<le> i \<longrightarrow>
             CreateIssue_attempt db now pfx cat ttl bdy p bb (envs i) = Continue"
    and "CreateIssue_attempt db now pfx cat ttl bdy p bb (envs j) = Return r"
    and "attempt \<le> j" and "j < maxCreateAttempts"
  shows "CreateIssue_loop db now pfx cat ttl bdy p bb envs attempt = r"
  using assms
proof (induction db now pfx cat ttl bdy p bb envs attempt rule: CreateIssue_loop.induct)
  case (1 db now pfx cat ttl bdy p bb envs attempt)
  from 1(4,5) have lt: "attempt < maxCreateAttempts" by simp
  show ?case
  proof (cases "attempt = j")
    case True
    with 1(3) lt show ?thesis by (simp add: CreateIssue_loop_step)
  next
    case False
    with 1(4) have aj: "attempt < j" by simp
    with 1(2) have c: "CreateIssue_attempt db now pfx cat ttl bdy p bb (envs attempt) = Continue"
      by simp
    have "CreateIssue_loop db now pfx cat ttl bdy p bb envs (attempt + 1) = r"
      by (rule 1(1)[OF lt c]) (use 1(2,3,5) aj in auto)
    with lt c show ?thesis by (simp add: CreateIssue_loop_step)
  qed
qed

section \<open>The two outcomes of each operation\<close>

lemma TransitionState_cases:
  obtains (fail) e where "TransitionState db now k to ev = (db, Inl e)"
  | (ok) r where "map_of db k = Some r" and "IsValidState to"
      and "ev = None \<or> ev = Some (version r)"
      and "TransitionState db now k to ev =
             (AList.map_entry k (transition_row now to) db,
              Inr (scanIssue k (transition_row now to r)))"
proof (cases "snd (TransitionState db now k to ev)")
  case (Inl e)
  from TransitionState_Inl[OF this] Inl
  have "TransitionState db now k to ev = (db, Inl e)"
    by (simp add: prod_eq_iff)
  then show ?thesis by (rule fail)
next
  case (Inr i)
  then have "TransitionState db now k to ev = (fst (TransitionState db now k to ev), Inr i)"
    by (simp add: prod_eq_iff)
  from TransitionState_Inr[OF this] obtain r where r: "map_of db k = Some r" "IsValidState to"
      "ev = None \<or> ev = Some (version r)"
      "fst (TransitionState db now k to ev) = AList.map_entry k (transition_row now to) db"
      "i = scanIssue k (transition_row now to r)"
    by blast
  with Inr have "TransitionState db now k to ev =
      (AList.map_entry k (transition_row now to) db, Inr (scanIssue k (transition_row now to r)))"
    by (simp add: prod_eq_iff)
  from ok[OF r(1,2,3) this] show ?thesis .
qed

lemma SetParent_cases:
  obtains (fail) e where "SetParent db now id0 p ev = (db, Inl e)"
  | (ok) r where "map_of db (TrimSpace id0) = Some r"
      and "parent_ok db (category r) (project_of (TrimSpace id0)) (effective_parent p)"
      and "ev = None \<or> ev = Some (version r)"
      and "SetParent db now id0 p ev =
             (AList.map_entry (TrimSpace id0) (setparent_row now (effective_parent p)) db,
              Inr (scanIssue (TrimSpace id0) (setparent_row now (effective_parent p) r)))"
proof (cases "TrimSpace id0 = []")
  case True
  then have "SetParent db now id0 p ev = (db, Inl (Errorf ''%w: id is required'' [W ErrInvalidInput]))"
    by (simp add: SetParent_def)
  then show ?thesis by (rule fail)
next
  case ne: False
  show ?thesis
  proof (cases "map_of db (TrimSpace id0)")
    case None
    with ne have "SetParent db now id0 p ev =
        (db, Inl (Errorf ''%w: issue %q not found'' [W ErrNotFound, Q (TrimSpace id0)]))"
      by (simp add: SetParent_def getIssueByIDTx_None)
    then show ?thesis by (rule fail)
  next
    case (Some r)
    show ?thesis
    proof (cases "parent_ok db (category r) (project_of (TrimSpace id0)) (effective_parent p)")
      case False
      from SetParent_conv(2)[OF Some ne False] fail show ?thesis by blast
    next
      case True
      show ?thesis
      proof (cases "ev = None \<or> ev = Some (version r)")
        case e: True
        from SetParent_conv(1)[OF Some ne True e] ok[OF Some True e] show ?thesis by blast
      next
        case False
        then obtain v where "ev = Some v" "v \<noteq> version r" by auto
        with SetParent_stale[OF Some, of v now p] fail show ?thesis by blast
      qed
    qed
  qed
qed

lemma SetBlockedBy_cases:
  obtains (fail) e where "SetBlockedBy db now id0 bb ev = (db, Inl e)"
  | (ok) r nb where "map_of db (TrimSpace id0) = Some r"
      and "normalizeBlockedByTx db (TrimSpace id0) (project_of (TrimSpace id0)) bb = Inr nb"
      and "ev = None \<or> ev = Some (version r)"
      and "SetBlockedBy db now id0 bb ev =
             (AList.map_entry (TrimSpace id0) (setblockedby_row now nb) db,
              Inr (scanIssue (TrimSpace id0) (setblockedby_row now nb r)))"
proof (cases "TrimSpace id0 = []")
  case True
  then have "SetBlockedBy db now id0 bb ev =
      (db, Inl (Errorf ''%w: id is required'' [W ErrInvalidInput]))"
    by (simp add: SetBlockedBy_def)
  then show ?thesis by (rule fail)
next
  case ne: False
  show ?thesis
  proof (cases "map_of db (TrimSpace id0)")
    case None
    with ne have "SetBlockedBy db now id0 bb ev =
        (db, Inl (Errorf ''%w: issue %q not found'' [W ErrNotFound, Q (TrimSpace id0)]))"
      by (simp add: SetBlockedBy_def getIssueByIDTx_None)
    then show ?thesis by (rule fail)
  next
    case (Some r)
    show ?thesis
    proof (cases "normalizeBlockedByTx db (TrimSpace id0) (project_of (TrimSpace id0)) bb")
      case (Inl e)
      from SetBlockedBy_conv(2)[OF Some ne Inl] fail show ?thesis by blast
    next
      case (Inr nb)
      show ?thesis
      proof (cases "ev = None \<or> ev = Some (version r)")
        case e: True
        from SetBlockedBy_conv(1)[OF Some ne Inr e] ok[OF Some Inr e] show ?thesis by blast
      next
        case False
        then obtain v where "ev = Some v" "v \<noteq> version r" by auto
        with SetBlockedBy_stale[OF Some, of v now bb] fail show ?thesis by blast
      qed
    qed
  qed
qed

lemma CreateIssue_cases:
  obtains (fail) e where "CreateIssue db now pp cat ttl bdy p bb envs = (db, Inl e)"
  | (ok) n nb where "projectPrefixRe (TrimSpace (ToLower pp))" and "IsValidCategory cat"
      and "TrimSpace ttl \<noteq> []"
      and "parent_ok db cat (TrimSpace (ToLower pp)) (effective_parent p)"
      and "normalizeBlockedByTx db (TrimSpace (ToLower pp) @ ''-'' @ fmt_d n)
             (TrimSpace (ToLower pp)) bb = Inr nb"
      and "map_of db (TrimSpace (ToLower pp) @ ''-'' @ fmt_d n) = None"
      and "CreateIssue db now pp cat ttl bdy p bb envs =
             (db @ [(TrimSpace (ToLower pp) @ ''-'' @ fmt_d n,
                     created_row now cat (TrimSpace ttl) bdy (effective_parent p) nb)],
              Inr (scanIssue (TrimSpace (ToLower pp) @ ''-'' @ fmt_d n)
                     (created_row now cat (TrimSpace ttl) bdy (effective_parent p) nb)))"
proof (cases "projectPrefixRe (TrimSpace (ToLower pp)) \<and> IsValidCategory cat \<and> TrimSpace ttl \<noteq> []")
  case False
  then have "\<exists>e. CreateIssue db now pp cat ttl bdy p bb envs = (db, Inl e)"
    by (auto simp: CreateIssue_def Let_def)
  with fail show ?thesis by blast
next
  case True
  let ?pfx = "TrimSpace (ToLower pp)"
  let ?P = "\<lambda>res. (\<exists>e. res = (db, Inl e)) \<or>
     (\<exists>n nb. parent_ok db cat ?pfx (effective_parent p)
        \<and> normalizeBlockedByTx db (?pfx @ ''-'' @ fmt_d n) ?pfx bb = Inr nb
        \<and> map_of db (?pfx @ ''-'' @ fmt_d n) = None
        \<and> res = (db @ [(?pfx @ ''-'' @ fmt_d n,
                     created_row now cat (TrimSpace ttl) bdy (effective_parent p) nb)],
              Inr (scanIssue (?pfx @ ''-'' @ fmt_d n)
                     (created_row now cat (TrimSpace ttl) bdy (effective_parent p) nb))))"
  have eq: "CreateIssue db now pp cat ttl bdy p bb envs =
        CreateIssue_loop db now ?pfx cat (TrimSpace ttl) bdy p bb envs 0"
    using True by (simp add: CreateIssue_def Let_def)
  have "?P (CreateIssue_loop db now ?pfx cat (TrimSpace ttl) bdy p bb envs 0)"
  proof (rule CreateIssue_loop_result)
    fix i r
    assume "CreateIssue_attempt db now ?pfx cat (TrimSpace ttl) bdy p bb (envs i) = Return r"
    then show "?P r"
      by (cases rule: CreateIssue_attempt_Return) blast+
  next
    show "?P (db, Inl (Errorf ''%w: failed to allocate issue number after retries''
                       [W ErrConflict]))"
      by blast
  qed
  then consider (a) e where "CreateIssue_loop db now ?pfx cat (TrimSpace ttl) bdy p bb envs 0 = (db, Inl e)"
    | (b) n nb where "parent_ok db cat ?pfx (effective_parent p)"
        "normalizeBlockedByTx db (?pfx @ ''-'' @ fmt_d n) ?pfx bb = Inr nb"
        "map_of db (?pfx @ ''-'' @ fmt_d n) = None"
        "CreateIssue_loop db now ?pfx cat (TrimSpace ttl) bdy p bb envs 0 =
           (db @ [(?pfx @ ''-'' @ fmt_d n,
                     created_row now cat (TrimSpace ttl) bdy (effective_parent p) nb)],
              Inr (scanIssue (?pfx @ ''-'' @ fmt_d n)
                     (created_row now cat (TrimSpace ttl) bdy (effective_parent p) nb)))"
    by blast
  then show ?thesis
  proof cases
    case a
    then show ?thesis using eq fail by simp
  next
    case b
    from True have t: "projectPrefixRe ?pfx" "IsValidCategory cat" "TrimSpace ttl \<noteq> []"
      by simp_all
    from ok[OF t b(1,2,3)] b(4) eq show ?thesis by simp
  qed
qed

section \<open>The invariants under an update and an insertion\<close>




lemma closed_at_inv_iff:
  "closed_at_inv db \<longleftrightarrow>
     (\<forall>k r. map_of db k = Some r \<longrightarrow>
        (closed_at r \<noteq> None) = (state r = ''done'' \<or> state r = ''canceled''))"
  unfolding closed_at_inv_def by (auto dest: map_of_SomeD)


lemma closed_at_inv_map_entry:
  assumes "closed_at_inv db"
    and "\<And>r. map_of db k = Some r \<Longrightarrow>
           (closed_at (f r) \<noteq> None) = (state (f r) = ''done'' \<or> state (f r) = ''canceled'')"
  shows "closed_at_inv (AList.map_entry k f db)"
  unfolding closed_at_inv_iff
proof (intro allI impI)
  fix k' r'
  assume h: "map_of (AList.map_entry k f db) k' = Some r'"
  show "(closed_at r' \<noteq> None) = (state r' = ''done'' \<or> state r' = ''canceled'')"
  proof (cases "k' = k")
    case True
    with h obtain r where "map_of db k = Some r" "r' = f r"
      by (auto simp: map_of_map_entry split: option.splits)
    with assms(2) show ?thesis by simp
  next
    case False
    with h have "map_of db k' = Some r'" by (simp add: map_of_map_entry)
    with assms(1) show ?thesis by (simp add: closed_at_inv_iff)
  qed
qed

lemma closed_at_inv_snoc:
  assumes "closed_at_inv db" and "map_of db k = None"
    and "(closed_at r \<noteq> None) = (state r = ''done'' \<or> state r = ''canceled'')"
  shows "closed_at_inv (db @ [(k, r)])"
  unfolding closed_at_inv_iff
proof (intro allI impI)
  fix k' r'
  assume "map_of (db @ [(k, r)]) k' = Some r'"
  then have "(k' = k \<and> r' = r) \<or> map_of db k' = Some r'"
    unfolding map_of_snoc_fresh[OF assms(2)] by (auto split: if_splits)
  with assms(1,3) show "(closed_at r' \<noteq> None) = (state r' = ''done'' \<or> state r' = ''canceled'')"
    by (auto simp: closed_at_inv_iff)
qed







lemma created_row_simps:
  "category (created_row now cat ttl bdy par nb) = cat"
  "parent_id (created_row now cat ttl bdy par nb) = par"
  "state (created_row now cat ttl bdy par nb) = ''todo''"
  "closed_at (created_row now cat ttl bdy par nb) = None"
  "version (created_row now cat ttl bdy par nb) = 1"
  "blocked_by (created_row now cat ttl bdy par nb) = nb"
  by (simp_all add: created_row_def)

section \<open>Every operation keeps the invariants\<close>

lemma closed_at_inv_TransitionState:
  assumes "closed_at_inv db"
  shows "closed_at_inv (fst (TransitionState db now k to ev))"
proof (cases rule: TransitionState_cases[of db now k to ev])
  case (fail e)
  with assms show ?thesis by simp
next
  case (ok r)
  have "closed_at_inv (AList.map_entry k (transition_row now to) db)"
    using assms by (rule closed_at_inv_map_entry) (simp add: transition_row_simps)
  with ok(4) show ?thesis by simp
qed

lemma closed_at_inv_SetParent:
  assumes "closed_at_inv db"
  shows "closed_at_inv (fst (SetParent db now id0 p ev))"
proof (cases rule: SetParent_cases[of db now id0 p ev])
  case (fail e)
  with assms show ?thesis by simp
next
  case (ok r)
  have "closed_at_inv (AList.map_entry (TrimSpace id0) (setparent_row now (effective_parent p)) db)"
    using assms
  proof (rule closed_at_inv_map_entry)
    fix r' assume "map_of db (TrimSpace id0) = Some r'"
    with assms show "(closed_at (setparent_row now (effective_parent p) r') \<noteq> None) =
        (state (setparent_row now (effective_parent p) r') = ''done''
         \<or> state (setparent_row now (effective_parent p) r') = ''canceled'')"
      by (simp add: setparent_row_simps closed_at_inv_iff)
  qed
  with ok(4) show ?thesis by simp
qed

lemma closed_at_inv_SetBlockedBy:
  assumes "closed_at_inv db"
  shows "closed_at_inv (fst (SetBlockedBy db now id0 bb ev))"
proof (cases rule: SetBlockedBy_cases[of db now id0 bb ev])
  case (fail e)
  with assms show ?thesis by simp
next
  case (ok r nb)
  have "closed_at_inv (AList.map_entry (TrimSpace id0) (setblockedby_row now nb) db)"
    using assms
  proof (rule closed_at_inv_map_entry)
    fix r' assume "map_of db (TrimSpace id0) = Some r'"
    with assms show "(closed_at (setblockedby_row now nb r') \<noteq> None) =
        (state (setblockedby_row now nb r') = ''done''
         \<or> state (setblockedby_row now nb r') = ''canceled'')"
      by (simp add: setblockedby_row_simps closed_at_inv_iff)
  qed
  with ok(4) show ?thesis by simp
qed

lemma closed_at_inv_CreateIssue:
  assumes "closed_at_inv db"
  shows "closed_at_inv (fst (CreateIssue db now pp cat ttl bdy p bb envs))"
proof (cases rule: CreateIssue_cases[of db now pp cat ttl bdy p bb envs])
  case (fail e)
  with assms show ?thesis by simp
next
  case (ok n nb)
  from closed_at_inv_snoc[OF assms ok(6)] ok(7) show ?thesis
    by (simp add: created_row_simps)
qed





lemma CreateIssue_first_attempt:
  assumes "projectPrefixRe (TrimSpace (ToLower pp))" and "IsValidCategory cat"
    and "TrimSpace ttl \<noteq> []"
    and "CreateIssue_attempt db now (TrimSpace (ToLower pp)) cat (TrimSpace ttl) bdy p bb
           (envs 0) = Return res"
  shows "CreateIssue db now pp cat ttl bdy p bb envs = res"
  using assms
  by (simp add: CreateIssue_def Let_def CreateIssue_loop_step maxCreateAttempts_def)

lemma CreateIssue_invalid_fields:
  assumes "\<not> (projectPrefixRe (TrimSpace (ToLower pp)) \<and> IsValidCategory cat
              \<and> TrimSpace ttl \<noteq> [])"
  shows "\<exists>e. CreateIssue db now pp cat ttl bdy p bb envs = (db, Inl e)
            \<and> errors_Is e ErrInvalidInput \<and> \<not> errors_Is e ErrNotFound"
  using assms by (auto simp: CreateIssue_def Let_def)




lemma CreateIssue_self_reference:
  assumes "randomIssueNumber (rand_Reader (envs 0)) = Inr n"
    and "TrimSpace (ToLower pp) @ ''-'' @ fmt_d n \<in> normalize_id ` set bb"
  shows "\<exists>e. CreateIssue db now pp cat ttl bdy p bb envs = (db, Inl e)"
proof (cases "projectPrefixRe (TrimSpace (ToLower pp)) \<and> IsValidCategory cat \<and> TrimSpace ttl \<noteq> []")
  case False
  from CreateIssue_invalid_fields[OF this] show ?thesis
    by blast
next
  case True
  let ?pfx = "TrimSpace (ToLower pp)"
  let ?k = "?pfx @ ''-'' @ fmt_d n"
  have "?k \<noteq> []" by simp
  from norm_loop_self[OF this assms(2), of db ?pfx "\<lambda>_. False" "[]"]
  obtain e where e: "normalizeBlockedByTx db ?k ?pfx bb = Inl e"
    by (auto simp: normalizeBlockedByTx_def)
  have "\<exists>e. CreateIssue_attempt db now ?pfx cat (TrimSpace ttl) bdy p bb (envs 0) =
          Return (db, Inl e)"
  proof (cases "parent_ok db cat ?pfx (effective_parent p)")
    case False
    from CreateIssue_attempt_conv(1)[OF assms(1) this] show ?thesis
      by blast
  next
    case True
    from CreateIssue_attempt_conv(2)[OF assms(1) this e] show ?thesis
      by blast
  qed
  then obtain e' where
    "CreateIssue_attempt db now ?pfx cat (TrimSpace ttl) bdy p bb (envs 0) = Return (db, Inl e')"
    by blast
  with True have "CreateIssue db now pp cat ttl bdy p bb envs = (db, Inl e')"
    by (intro CreateIssue_first_attempt) simp_all
  then show ?thesis by blast
qed

section \<open>The example store, evaluated\<close>

lemma TrimSpace_ex: "TrimSpace ''cat-100001'' = ''cat-100001''"
  "TrimSpace ''cat-100002'' = ''cat-100002''" "TrimSpace (ToLower ''cat'') = ''cat''"
  "TrimSpace ''Other'' = ''Other''"
  by (simp_all add: TrimSpace_def trimPrefixes.simps spaceRunes_def ToLower_def isASCII_def)

lemma fmt_ex: "fmt_d 100007 = ''100007''" "fmt_d 100001 = ''100001''"
  by (simp_all add: fmt_d_def fmt_nat.simps)

lemma norm_ex: "normalize_id '' CAT-100001'' = ''cat-100001''"
  "normalize_id ''cat-100001'' = ''cat-100001''" "normalize_id ''CAT-100002 '' = ''cat-100002''"
  "normalize_id ''cat-100007'' = ''cat-100007''"
  by (simp_all add: normalize_id_def TrimSpace_def trimPrefixes.simps spaceRunes_def
      ToLower_def isASCII_def)

lemma re_ex: "issueIDRe ''cat-100001''" "issueIDRe ''cat-100002''" "projectPrefixRe ''cat''"
  by (simp_all add: issueIDRe_def projectPrefixRe_def isLowerAlnum_def isDigit_def)

lemma pp_ex: "projectPrefixFromIssueID ''cat-100001'' = (''cat'', True)"
  "projectPrefixFromIssueID ''cat-100002'' = (''cat'', True)"
  by (simp_all add: projectPrefixFromIssueID_def TrimSpace_def trimPrefixes.simps
      spaceRunes_def ToLower_def isASCII_def
      SplitN2_def projectPrefixRe_def isLowerAlnum_def)

lemma project_of_ex: "project_of ''cat-100001'' = ''cat''" "project_of ''cat-100002'' = ''cat''"
  by (simp_all add: project_of_def pp_ex)

lemma ex_invs: "hierarchy_inv ex_db" "closed_at_inv ex_db"
  by (simp_all add: hierarchy_inv_def closed_at_inv_def ex_db_def ex_row_def hierarchy_rule_def)

lemma ex_accepted: "accepted ex_db ''cat-100002'' ''cat'' ''cat-100001''"
  by (simp add: accepted_def re_ex pp_ex ex_lookup1)

lemma ex_normalize:
  "normalizeBlockedByTx ex_db ''cat-100002'' ''cat'' [''cat-100001''] = Inr [''cat-100001'']"
  "normalizeBlockedByTx ex_db ''cat-100002'' ''cat'' [''cat-100001'', '' CAT-100001''] =
     Inr [''cat-100001'']"
  by (simp_all add: normalizeBlockedByTx_def norm_loop_Cons norm_ex re_ex ex_accepted)

lemma ex_transition_blocked:
  "TransitionState ex_db 9 ''cat-100001'' ''blocked'' None =
     (AList.map_entry ''cat-100001'' (transition_row 9 ''blocked'') ex_db,
      Inr (scanIssue ''cat-100001''
             (transition_row 9 ''blocked'' (ex_row\<lparr>version := 4, last_updated_at := 6\<rparr>))))"
  by (rule TransitionState_ok[OF ex_lookup1])
    (simp_all add: IsValidState_iff defined_states_def ValidateTransition_def
      validTransitions_def state_defs ex_row_def)

lemma ex_parent_ok: "parent_ok ex_db ''project'' ''cat'' (effective_parent None)"
  "parent_ok ex_db ''workstream'' ''cat'' (effective_parent (Some ''cat-100001 ''))"
  "\<not> hierarchy_rule ex_db ''task'' ''cat'' (effective_parent None)"
  "\<not> hierarchy_rule ex_db ''project'' ''cat'' (effective_parent (Some ''cat-100002''))"
  by (simp_all add: parent_ok_def effective_parent_def has_parent_def hierarchy_rule_def
      TrimSpace_def trimPrefixes.simps spaceRunes_def ex_lookup1 project_of_ex ex_row_def)

lemma ex_setparent_none:
  "SetParent ex_db 9 ''cat-100001'' None None =
     (AList.map_entry ''cat-100001'' (setparent_row 9 None) ex_db,
      Inr (scanIssue ''cat-100001''
             (setparent_row 9 None (ex_row\<lparr>version := 4, last_updated_at := 6\<rparr>))))"
  using SetParent_conv(1)[of ex_db "''cat-100001''" "ex_row\<lparr>version := 4, last_updated_at := 6\<rparr>"
      None None 9] ex_parent_ok(1)
  by (simp add: TrimSpace_ex ex_lookup1 project_of_ex ex_row_def effective_parent_def)

lemma ex_setblockedby:
  "SetBlockedBy ex_db 9 ''cat-100002'' [''cat-100001'', '' CAT-100001''] None =
     (AList.map_entry ''cat-100002'' (setblockedby_row 9 [''cat-100001'']) ex_db,
      Inr (scanIssue ''cat-100002''
             (setblockedby_row 9 [''cat-100001'']
                (ex_row\<lparr>state := ''done'', version := 3, blocked_by := [''cat-100001''],
                          created_at := 2, last_updated_at := 5, closed_at := Some 5\<rparr>))))"
  using SetBlockedBy_conv(1)[of ex_db "''cat-100002''" _ "[''cat-100001'', '' CAT-100001'']"
      "[''cat-100001'']" None 9]
  by (simp add: TrimSpace_ex ex_lookup2 project_of_ex ex_normalize)

lemma ex_rand:
  "randomIssueNumber (rand_Reader (ex_env 7)) = Inr 100007"
  "randomIssueNumber (rand_Reader (ex_env 900001)) = Inr 100001"
  by (simp_all add: ex_env_def randomIssueNumber_conv)

lemma ex_env_simps:
  "insert_failure (ex_env x) = None" "commit_failure (ex_env x) = None"
  "rand_Reader (ex_env x) = Inr x"
  by (simp_all add: ex_env_def)

lemma ex_attempt_collide:
  "CreateIssue_attempt ex_db 9 ''cat'' ''project'' ''Other'' '''' None [] (ex_env 900001) = Continue"
  using CreateIssue_attempt_conv(3)[OF ex_rand(2), where db = ex_db and cat = "''project''"
      and pfx = "''cat''" and p = None and bb = "[]" and nb = "[]"] ex_parent_ok(1)
  by (simp add: fmt_ex ex_lookup1 normalizeBlockedByTx_def ex_env_simps)

lemma ex_create_workstream:
  "CreateIssue ex_db 9 ''cat'' ''workstream'' ''Other'' '''' (Some ''cat-100001 '') []
     (\<lambda>_. ex_env 7) =
   (ex_db @ [(''cat-100007'',
              created_row 9 ''workstream'' ''Other'' '''' (Some ''cat-100001'') [])],
    Inr (scanIssue ''cat-100007''
           (created_row 9 ''workstream'' ''Other'' '''' (Some ''cat-100001'') [])))"
proof -
  have e: "effective_parent (Some ''cat-100001 '') = Some ''cat-100001''"
    by (simp add: effective_parent_def TrimSpace_def trimPrefixes.simps spaceRunes_def)
  have "CreateIssue_attempt ex_db 9 ''cat'' ''workstream'' ''Other'' '''' (Some ''cat-100001 '')
          [] (ex_env 7) =
        Return (ex_db @ [(''cat-100007'',
                   created_row 9 ''workstream'' ''Other'' '''' (Some ''cat-100001'') [])],
                Inr (scanIssue ''cat-100007''
                   (created_row 9 ''workstream'' ''Other'' '''' (Some ''cat-100001'') [])))"
    using CreateIssue_attempt_conv(4)[OF ex_rand(1), where db = ex_db
        and cat = "''workstream''" and pfx = "''cat''" and p = "Some ''cat-100001 ''"
        and bb = "[]" and nb = "[]"] ex_parent_ok(2)
    by (simp add: fmt_ex normalizeBlockedByTx_def ex_db_def e ex_env_simps)
  then show ?thesis
    by (simp add: CreateIssue_def Let_def TrimSpace_ex re_ex IsValidCategory_def category_defs
        CreateIssue_loop_step maxCreateAttempts_def)
qed

lemma TrimSpace_unicode_ex:
  "TrimSpace [CHR 0xC2, CHR 0xA0] = ''''"
  "TrimSpace [CHR 0xC2, CHR 0xA0, CHR ''a'', CHR 0xE2, CHR 0x80, CHR 0x83, CHR '' ''] = ''a''"
  "TrimSpace [CHR 0xA0, CHR ''a'', CHR 0xC2] = [CHR 0xA0, CHR ''a'', CHR 0xC2]"
  by (simp_all add: TrimSpace_def trimPrefixes.simps spaceRunes_def)

lemma ex_title_no_break_space:
  "CreateIssue ex_db 9 ''cat'' ''project'' [CHR 0xC2, CHR 0xA0] '''' None [] envs =
     (ex_db, Inl (Errorf ''%w: title is required'' [W ErrInvalidInput]))"
  by (simp add: CreateIssue_def Let_def TrimSpace_ex TrimSpace_unicode_ex re_ex
      IsValidCategory_def category_defs)

lemma ex_gate_lookup:
  "map_of ex_gate_db ''cat-100001'' = Some (ex_row\<lparr>version := 4, last_updated_at := 6\<rparr>)"
  "map_of ex_gate_db ''cat-100002'' =
     Some (ex_row\<lparr>state := ''done'', version := 3, blocked_by := [''cat-100001''],
                  created_at := 2, last_updated_at := 5, closed_at := Some 5\<rparr>)"
  "map_of ex_gate_db ''cat-100003'' =
     Some (ex_row\<lparr>blocked_by := [''cat-100001'', ''cat-100002''], created_at := 3,
                  last_updated_at := 3\<rparr>)"
  "map_of ex_gate_db ''cat-100004'' =
     Some (ex_row\<lparr>blocked_by := [''cat-100009''], created_at := 4, last_updated_at := 4\<rparr>)"
  "map_of ex_gate_db ''cat-100009'' = None"
  by (simp_all add: ex_gate_db_def ex_db_def)

lemma ex_gate_deps:
  "\<not> dep_missing ex_gate_db ''cat-100001''" "\<not> dep_done ex_gate_db ''cat-100001''"
  "\<not> dep_missing ex_gate_db ''cat-100002''" "dep_done ex_gate_db ''cat-100002''"
  "dep_missing ex_gate_db ''cat-100009''"
  by (simp_all add: dep_missing_def dep_done_def ex_gate_lookup ex_row_def)

lemma ex_attempt_project:
  "CreateIssue_attempt ex_db 9 ''cat'' ''project'' ''Other'' '''' None [] (ex_env 7) =
     Return (ex_db @ [(''cat-100007'', created_row 9 ''project'' ''Other'' '''' None [])],
             Inr (scanIssue ''cat-100007'' (created_row 9 ''project'' ''Other'' '''' None [])))"
  using CreateIssue_attempt_conv(4)[OF ex_rand(1), where db = ex_db and cat = "''project''"
      and pfx = "''cat''" and p = None and bb = "[]" and nb = "[]"] ex_parent_ok(1)
  by (simp add: fmt_ex normalizeBlockedByTx_def ex_db_def effective_parent_def ex_env_simps)

lemma ex_valid_inputs:
  "projectPrefixRe (TrimSpace (ToLower ''cat''))" "IsValidCategory ''project''"
  "TrimSpace ''Other'' \<noteq> []"
  by (simp_all add: TrimSpace_ex re_ex IsValidCategory_def category_defs)

section \<open>The claims\<close>

text \<open>
  C1. Legality of a transition between two distinct defined states is exactly the table
  of the specification. On an issue in state \<open>from\<close>, \<open>TransitionState\<close> with a target
  \<open>to\<close> fails with \<open>ErrInvalidStateTransition\<close>, and leaves the store as it was, when
  the edge is not in the table. When the edge is in the table, every dependency is done
  if the target is \<open>in_progress\<close>, and the expected version is absent or current, it
  succeeds and the version of the row grows by exactly one.
\<close>

theorem C1_transition_table:
  assumes "map_of db k = Some r" and "state r = from"
    and "from \<in> set defined_states" and "to \<in> set defined_states" and "from \<noteq> to"
  shows "((from, to) \<notin> set spec_transition_table \<longrightarrow>
            TransitionState db now k to ev =
              (db, Inl (Errorf ''%w: %s -> %s'' [W ErrInvalidStateTransition, S from, S to])))
       \<and> ((from, to) \<in> set spec_transition_table
            \<and> (to = ''in_progress'' \<longrightarrow> (\<forall>d \<in> set (blocked_by r). dep_done db d))
            \<and> (ev = None \<or> ev = Some (version r)) \<longrightarrow>
            (\<exists>db' r'. TransitionState db now k to ev = (db', Inr (scanIssue k r'))
               \<and> map_of db' k = Some r' \<and> state r' = to \<and> version r' = version r + 1))"
proof (intro conjI impI)
  assume "(from, to) \<notin> set spec_transition_table"
  with assms show "TransitionState db now k to ev =
      (db, Inl (Errorf ''%w: %s -> %s'' [W ErrInvalidStateTransition, S from, S to]))"
    by (simp add: TransitionState_def IsValidState_iff getIssueByIDTx_Some
        ValidateTransition_table scanIssue_def)
next
  assume h: "(from, to) \<in> set spec_transition_table
            \<and> (to = ''in_progress'' \<longrightarrow> (\<forall>d \<in> set (blocked_by r). dep_done db d))
            \<and> (ev = None \<or> ev = Some (version r))"
  have v: "IsValidState to"
    using assms(4) by (simp add: IsValidState_iff)
  have t: "ValidateTransition (state r) to = None"
    using assms h by (simp add: ValidateTransition_table)
  have g: "to = StateInProgress \<longrightarrow> unresolvedBlockedByTx db (scanIssue k r) = Inr []"
    using h by (simp add: gate_open StateInProgress_def)
  have e: "ev = None \<or> ev = Some (version r)"
    using h by simp
  have "map_of (AList.map_entry k (transition_row now to) db) k = Some (transition_row now to r)"
    using assms(1) by (rule map_of_map_entry_same)
  with TransitionState_ok[OF assms(1) v t g e, of now]
  show "\<exists>db' r'. TransitionState db now k to ev = (db', Inr (scanIssue k r'))
               \<and> map_of db' k = Some r' \<and> state r' = to \<and> version r' = version r + 1"
    by (simp add: transition_row_simps)
qed

theorem C1_transition_table_witness:
  "TransitionState ex_db 9 ''cat-100001'' ''done'' None =
     (ex_db, Inl (Errorf ''%w: %s -> %s'' [W ErrInvalidStateTransition, S ''todo'', S ''done'']))
   \<and> (\<exists>db' r'. TransitionState ex_db 9 ''cat-100001'' ''blocked'' (Some 4) =
                   (db', Inr (scanIssue ''cat-100001'' r'))
               \<and> map_of db' ''cat-100001'' = Some r' \<and> state r' = ''blocked'' \<and> version r' = 5)"
  using C1_transition_table[OF ex_lookup1, of "''todo''" "''done''" 9 None]
    C1_transition_table[OF ex_lookup1, of "''todo''" "''blocked''" 9 "Some 4"]
  by (simp add: ex_row_def defined_states_def spec_transition_table_def)

text \<open>
  C2, as stated, fails: a transition to the state an issue is already in is not a no-op.
  The issue \<open>cat-100001\<close> of the example store is in state \<open>todo\<close> at version 4;
  \<open>TransitionState\<close> to \<open>todo\<close> succeeds and leaves it at version 5 with a new
  \<open>last_updated_at\<close>.
\<close>

theorem C2_counterexample:
  "map_of ex_db ''cat-100001'' = Some (ex_row\<lparr>version := 4, last_updated_at := 6\<rparr>)
   \<and> state (ex_row\<lparr>version := 4, last_updated_at := 6\<rparr>) = ''todo''
   \<and> map_of (fst (TransitionState ex_db 9 ''cat-100001'' ''todo'' None)) ''cat-100001'' =
       Some (ex_row\<lparr>version := 5, last_updated_at := 9\<rparr>)"
proof -
  have "TransitionState ex_db 9 ''cat-100001'' ''todo'' None =
     (AList.map_entry ''cat-100001'' (transition_row 9 ''todo'') ex_db,
      Inr (scanIssue ''cat-100001''
             (transition_row 9 ''todo'' (ex_row\<lparr>version := 4, last_updated_at := 6\<rparr>))))"
    by (rule TransitionState_ok[OF ex_lookup1])
      (simp_all add: IsValidState_iff defined_states_def ValidateTransition_def
        validTransitions_def state_defs ex_row_def)
  then show ?thesis
    by (simp add: ex_lookup1 map_of_map_entry_same[OF ex_lookup1] ex_row_def transition_row_def
        TransitionState_setParts_def trg_issues_last_updated_at_def state_defs)
qed

text \<open>
  C2, amended. A transition to the current state passes the legality check and is then
  carried out like any other transition: if the state is \<open>in_progress\<close> the dependencies
  must all be done, and the expected version, when given, must be current. It then succeeds;
  the state stays, the version grows by one, \<open>last_updated_at\<close> becomes the current time
  and \<open>closed_at\<close> is set again (to the current time in \<open>done\<close> and \<open>canceled\<close>, to
  null otherwise). Nothing else in the row changes.
\<close>

theorem C2_self_transition:
  assumes "map_of db k = Some r" and "state r \<in> set defined_states"
    and "state r = ''in_progress'' \<longrightarrow> (\<forall>d \<in> set (blocked_by r). dep_done db d)"
    and "ev = None \<or> ev = Some (version r)"
  shows "TransitionState db now k (state r) ev =
           (AList.map_entry k (transition_row now (state r)) db,
            Inr (scanIssue k (transition_row now (state r) r)))
       \<and> map_of (AList.map_entry k (transition_row now (state r)) db) k =
           Some (transition_row now (state r) r)
       \<and> transition_row now (state r) r =
           r\<lparr>version := version r + 1, last_updated_at := now,
             closed_at := (if state r = ''done'' \<or> state r = ''canceled''
                           then Some now else None)\<rparr>"
proof (intro conjI)
  have v: "IsValidState (state r)"
    using assms(2) by (simp add: IsValidState_iff)
  have g: "state r = StateInProgress \<longrightarrow> unresolvedBlockedByTx db (scanIssue k r) = Inr []"
    using assms(3) by (simp add: gate_open StateInProgress_def)
  show "TransitionState db now k (state r) ev =
           (AList.map_entry k (transition_row now (state r)) db,
            Inr (scanIssue k (transition_row now (state r) r)))"
    by (rule TransitionState_ok[OF assms(1) v ValidateTransition_self g assms(4)])
  show "map_of (AList.map_entry k (transition_row now (state r)) db) k =
           Some (transition_row now (state r) r)"
    using assms(1) by (rule map_of_map_entry_same)
  show "transition_row now (state r) r =
           r\<lparr>version := version r + 1, last_updated_at := now,
             closed_at := (if state r = ''done'' \<or> state r = ''canceled''
                           then Some now else None)\<rparr>"
    by (simp add: transition_row_def TransitionState_setParts_def
        trg_issues_last_updated_at_def state_defs)
qed

theorem C2_self_transition_witness:
  "TransitionState ex_db 9 ''cat-100002'' ''done'' (Some 3) =
     (AList.map_entry ''cat-100002'' (transition_row 9 ''done'') ex_db,
      Inr (scanIssue ''cat-100002''
             (ex_row\<lparr>state := ''done'', version := 4, blocked_by := [''cat-100001''],
                      created_at := 2, last_updated_at := 9, closed_at := Some 9\<rparr>)))"
  using C2_self_transition[OF ex_lookup2, of "Some 3" 9]
  by (simp add: ex_row_def defined_states_def)

text \<open>
  C3, as stated, fails: the legality of the edge is checked before the dependencies. The
  issue \<open>cat-100002\<close> of the example store is done and is blocked by \<open>cat-100001\<close>,
  which exists and is back in \<open>todo\<close>; \<open>TransitionState\<close> to \<open>in_progress\<close> fails with
  \<open>ErrInvalidStateTransition\<close>, not with \<open>ErrInvalidInput\<close>.
\<close>

theorem C3_counterexample:
  "map_of ex_db ''cat-100002'' =
     Some (ex_row\<lparr>state := ''done'', version := 3, blocked_by := [''cat-100001''],
                  created_at := 2, last_updated_at := 5, closed_at := Some 5\<rparr>)
   \<and> \<not> dep_missing ex_db ''cat-100001'' \<and> \<not> dep_done ex_db ''cat-100001''
   \<and> TransitionState ex_db 9 ''cat-100002'' ''in_progress'' None =
       (ex_db, Inl (Errorf ''%w: %s -> %s''
                      [W ErrInvalidStateTransition, S ''done'', S ''in_progress'']))
   \<and> \<not> errors_Is (Errorf ''%w: %s -> %s''
                      [W ErrInvalidStateTransition, S ''done'', S ''in_progress''])
         ErrInvalidInput"
  by (simp add: TransitionState_def IsValidState_iff defined_states_def
      getIssueByIDTx_Some[OF ex_lookup2] ex_lookup2 ex_lookup1 scanIssue_simps ex_row_def
      ValidateTransition_def validTransitions_def state_defs dep_missing_def dep_done_def)

text \<open>
  C3, amended. \<open>TransitionState\<close> with target \<open>in_progress\<close> succeeds only if every id
  in \<open>blocked_by\<close> names an existing issue in state \<open>done\<close>. When the issue is in a
  state from which \<open>in_progress\<close> may be entered (\<open>todo\<close>, \<open>blocked\<close>, or
  \<open>in_progress\<close> itself): if some dependency does not exist, the operation fails with
  \<open>ErrNotFound\<close>, naming a missing id; if every dependency exists and at least one is
  not done, it fails with \<open>ErrInvalidInput\<close>, and the message lists, separated by
  commas, the ids that are not done. From \<open>done\<close>, \<open>canceled\<close> or any other state
  the operation fails with \<open>ErrInvalidStateTransition\<close>, whatever the dependencies
  are. The store is unchanged in all three cases.
\<close>

theorem C3_in_progress_gate:
  assumes "map_of db k = Some r"
  shows "((\<exists>db' i. TransitionState db now k ''in_progress'' ev = (db', Inr i)) \<longrightarrow>
            (\<forall>d \<in> set (blocked_by r). dep_done db d))
       \<and> (state r \<in> {''todo'', ''blocked'', ''in_progress''} \<longrightarrow>
            ((\<exists>d \<in> set (blocked_by r). dep_missing db d) \<longrightarrow>
               (\<exists>d \<in> set (blocked_by r). dep_missing db d \<and>
                  TransitionState db now k ''in_progress'' ev =
                    (db, Inl (Errorf ''%w: blocked_by issue %q not found''
                                [W ErrNotFound, Q d]))))
          \<and> ((\<forall>d \<in> set (blocked_by r). \<not> dep_missing db d)
               \<and> (\<exists>d \<in> set (blocked_by r). \<not> dep_done db d) \<longrightarrow>
               TransitionState db now k ''in_progress'' ev =
                 (db, Inl (Errorf ''%w: blocked_by not done: %s''
                             [W ErrInvalidInput,
                              S (Join (filter (\<lambda>d. \<not> dep_done db d) (blocked_by r)) '','')]))))
       \<and> (state r \<notin> {''todo'', ''blocked'', ''in_progress''} \<longrightarrow>
            TransitionState db now k ''in_progress'' ev =
              (db, Inl (Errorf ''%w: %s -> %s''
                          [W ErrInvalidStateTransition, S (state r), S ''in_progress''])))"
proof (intro conjI impI)
  assume "\<exists>db' i. TransitionState db now k ''in_progress'' ev = (db', Inr i)"
  then obtain db' i where "TransitionState db now k StateInProgress ev = (db', Inr i)"
    by (auto simp: StateInProgress_def)
  from TransitionState_Inr[OF this] assms
  have u: "unresolvedBlockedByTx_loop db (blocked_by r) [] = Inr []"
    by (auto simp: unresolvedBlockedByTx_def scanIssue_simps)
  show "\<forall>d \<in> set (blocked_by r). dep_done db d"
  proof (cases "find (dep_missing db) (blocked_by r)")
    case (Some d)
    from unresolved_loop_missing[OF this, of "[]"] u show ?thesis by simp
  next
    case None
    then have "\<forall>d \<in> set (blocked_by r). \<not> dep_missing db d"
      by (simp add: find_None_iff)
    from unresolved_loop_all_exist[OF this, of "[]"] u
    have "filter (\<lambda>d. \<not> dep_done db d) (blocked_by r) = []" by simp
    then show ?thesis by (simp add: filter_empty_conv)
  qed
next
  assume st: "state r \<in> {''todo'', ''blocked'', ''in_progress''}"
  then have vt: "ValidateTransition (state r) ''in_progress'' = None"
    by (auto simp: ValidateTransition_def validTransitions_def state_defs)
  assume "\<exists>d \<in> set (blocked_by r). dep_missing db d"
  then obtain d where d: "find (dep_missing db) (blocked_by r) = Some d"
    by (cases "find (dep_missing db) (blocked_by r)") (auto simp: find_None_iff)
  then have m: "d \<in> set (blocked_by r)" "dep_missing db d"
    by (auto simp: find_Some_iff)
  from unresolved_loop_missing[OF d, of "[]"] vt
  have "TransitionState db now k ''in_progress'' ev =
          (db, Inl (Errorf ''%w: blocked_by issue %q not found'' [W ErrNotFound, Q d]))"
    by (simp add: TransitionState_def IsValidState_iff defined_states_def
        getIssueByIDTx_Some[OF assms] scanIssue_simps unresolvedBlockedByTx_def
        StateInProgress_def)
  with m show "\<exists>d \<in> set (blocked_by r). dep_missing db d \<and>
                  TransitionState db now k ''in_progress'' ev =
                    (db, Inl (Errorf ''%w: blocked_by issue %q not found''
                                [W ErrNotFound, Q d]))"
    by blast
next
  assume st: "state r \<in> {''todo'', ''blocked'', ''in_progress''}"
  then have vt: "ValidateTransition (state r) ''in_progress'' = None"
    by (auto simp: ValidateTransition_def validTransitions_def state_defs)
  assume h: "(\<forall>d \<in> set (blocked_by r). \<not> dep_missing db d)
               \<and> (\<exists>d \<in> set (blocked_by r). \<not> dep_done db d)"
  then have ne: "filter (\<lambda>d. \<not> dep_done db d) (blocked_by r) \<noteq> []"
    by (simp add: filter_empty_conv)
  from h have "\<forall>d \<in> set (blocked_by r). \<not> dep_missing db d" by simp
  from unresolved_loop_all_exist[OF this, of "[]"] vt ne
  show "TransitionState db now k ''in_progress'' ev =
                 (db, Inl (Errorf ''%w: blocked_by not done: %s''
                             [W ErrInvalidInput,
                              S (Join (filter (\<lambda>d. \<not> dep_done db d) (blocked_by r)) '','')]))"
    by (simp add: TransitionState_def IsValidState_iff defined_states_def
        getIssueByIDTx_Some[OF assms] scanIssue_simps unresolvedBlockedByTx_def
        StateInProgress_def)
next
  assume "state r \<notin> {''todo'', ''blocked'', ''in_progress''}"
  then have "ValidateTransition (state r) ''in_progress'' =
      Some (Errorf ''%w: %s -> %s''
              [W ErrInvalidStateTransition, S (state r), S ''in_progress''])"
    by (auto simp: ValidateTransition_def validTransitions_def state_defs
        split: option.splits)
  then show "TransitionState db now k ''in_progress'' ev =
              (db, Inl (Errorf ''%w: %s -> %s''
                          [W ErrInvalidStateTransition, S (state r), S ''in_progress'']))"
    by (simp add: TransitionState_def IsValidState_iff defined_states_def
        getIssueByIDTx_Some[OF assms] scanIssue_simps)
qed

theorem C3_in_progress_gate_witness:
  "TransitionState ex_gate_db 9 ''cat-100003'' ''in_progress'' None =
     (ex_gate_db, Inl (Errorf ''%w: blocked_by not done: %s''
                         [W ErrInvalidInput, S ''cat-100001'']))
   \<and> TransitionState ex_gate_db 9 ''cat-100004'' ''in_progress'' None =
     (ex_gate_db, Inl (Errorf ''%w: blocked_by issue %q not found''
                         [W ErrNotFound, Q ''cat-100009'']))
   \<and> TransitionState ex_gate_db 9 ''cat-100002'' ''in_progress'' None =
     (ex_gate_db, Inl (Errorf ''%w: %s -> %s''
                         [W ErrInvalidStateTransition, S ''done'', S ''in_progress'']))"
proof (intro conjI)
  have b: "blocked_by (ex_row\<lparr>blocked_by := [''cat-100001'', ''cat-100002''], created_at := 3,
                  last_updated_at := 3\<rparr>) = [''cat-100001'', ''cat-100002'']"
    by simp
  have "TransitionState ex_gate_db 9 ''cat-100003'' ''in_progress'' None =
     (ex_gate_db, Inl (Errorf ''%w: blocked_by not done: %s''
        [W ErrInvalidInput,
         S (Join (filter (\<lambda>d. \<not> dep_done ex_gate_db d)
                    (blocked_by (ex_row\<lparr>blocked_by := [''cat-100001'', ''cat-100002''],
                                   created_at := 3, last_updated_at := 3\<rparr>))) '','')]))"
    by (rule C3_in_progress_gate[OF ex_gate_lookup(3), THEN conjunct2, THEN conjunct1,
          THEN mp, THEN conjunct2, THEN mp])
      (simp_all add: ex_row_def ex_gate_deps)
  then show "TransitionState ex_gate_db 9 ''cat-100003'' ''in_progress'' None =
     (ex_gate_db, Inl (Errorf ''%w: blocked_by not done: %s''
                         [W ErrInvalidInput, S ''cat-100001'']))"
    unfolding b by (simp add: ex_gate_deps)
next
  have "\<exists>d \<in> set (blocked_by (ex_row\<lparr>blocked_by := [''cat-100009''], created_at := 4,
                                    last_updated_at := 4\<rparr>)).
          dep_missing ex_gate_db d \<and>
          TransitionState ex_gate_db 9 ''cat-100004'' ''in_progress'' None =
            (ex_gate_db, Inl (Errorf ''%w: blocked_by issue %q not found''
                                [W ErrNotFound, Q d]))"
    by (rule C3_in_progress_gate[OF ex_gate_lookup(4), THEN conjunct2, THEN conjunct1,
          THEN mp, THEN conjunct1, THEN mp])
      (simp_all add: ex_row_def ex_gate_deps)
  then show "TransitionState ex_gate_db 9 ''cat-100004'' ''in_progress'' None =
     (ex_gate_db, Inl (Errorf ''%w: blocked_by issue %q not found''
                         [W ErrNotFound, Q ''cat-100009'']))"
    by simp
next
  have "TransitionState ex_gate_db 9 ''cat-100002'' ''in_progress'' None =
     (ex_gate_db, Inl (Errorf ''%w: %s -> %s''
        [W ErrInvalidStateTransition,
         S (state (ex_row\<lparr>state := ''done'', version := 3, blocked_by := [''cat-100001''],
                           created_at := 2, last_updated_at := 5, closed_at := Some 5\<rparr>)),
         S ''in_progress'']))"
    by (rule C3_in_progress_gate[OF ex_gate_lookup(2), THEN conjunct2, THEN conjunct2,
          THEN mp])
      simp
  then show "TransitionState ex_gate_db 9 ''cat-100002'' ''in_progress'' None =
     (ex_gate_db, Inl (Errorf ''%w: %s -> %s''
                         [W ErrInvalidStateTransition, S ''done'', S ''in_progress'']))"
    by simp
qed

text \<open>
  C4, as stated, fails: a stale expected version does not always give a conflict. The
  issue \<open>cat-100001\<close> of the example store is in state \<open>todo\<close> at version 4;
  \<open>TransitionState\<close> to \<open>done\<close> with expected version 3 fails with
  \<open>ErrInvalidStateTransition\<close>, because the edge is checked before the version.
\<close>

theorem C4_counterexample:
  "map_of ex_db ''cat-100001'' = Some (ex_row\<lparr>version := 4, last_updated_at := 6\<rparr>)
   \<and> version (ex_row\<lparr>version := 4, last_updated_at := 6\<rparr>) \<noteq> 3
   \<and> TransitionState ex_db 9 ''cat-100001'' ''done'' (Some 3) =
       (ex_db, Inl (Errorf ''%w: %s -> %s'' [W ErrInvalidStateTransition, S ''todo'', S ''done'']))
   \<and> \<not> errors_Is (Errorf ''%w: %s -> %s'' [W ErrInvalidStateTransition, S ''todo'', S ''done''])
         ErrConflict"
  by (simp add: TransitionState_def IsValidState_iff defined_states_def
      getIssueByIDTx_Some[OF ex_lookup1] ex_lookup1 scanIssue_def ex_row_def
      ValidateTransition_def validTransitions_def state_defs)

text \<open>
  C4, amended. On an existing issue, \<open>TransitionState\<close>, \<open>SetParent\<close> and
  \<open>SetBlockedBy\<close> with an expected version that is not the current one always fail and
  leave the store as it was. The error is the one the same call without an expected
  version would fail with, when that call fails (a check that comes before the write);
  when that call would succeed, the error is \<open>ErrConflict\<close>.
\<close>

theorem C4_stale_version:
  assumes "map_of db (TrimSpace id0) = Some r" and "v \<noteq> version r"
    and "map_of db k = Some r'" and "v' \<noteq> version r'"
  shows "TransitionState db now k to (Some v') =
           (db, Inl (case snd (TransitionState db now k to None) of
                       Inl e \<Rightarrow> e
                     | Inr i \<Rightarrow> Errorf ''%w: stale write; expected version %d''
                                 [W ErrConflict, D v']))
       \<and> SetParent db now id0 p (Some v) =
           (db, Inl (case snd (SetParent db now id0 p None) of
                       Inl e \<Rightarrow> e
                     | Inr i \<Rightarrow> Errorf ''%w: stale write; expected version %d''
                                 [W ErrConflict, D v]))
       \<and> SetBlockedBy db now id0 bb (Some v) =
           (db, Inl (case snd (SetBlockedBy db now id0 bb None) of
                       Inl e \<Rightarrow> e
                     | Inr i \<Rightarrow> Errorf ''%w: stale write; expected version %d''
                                 [W ErrConflict, D v]))"
  using TransitionState_stale[OF assms(3,4)] SetParent_stale[OF assms(1,2)]
    SetBlockedBy_stale[OF assms(1,2)]
  by simp

theorem C4_stale_version_witness:
  "TransitionState ex_db 9 ''cat-100001'' ''blocked'' (Some 3) =
     (ex_db, Inl (Errorf ''%w: stale write; expected version %d'' [W ErrConflict, D 3]))
   \<and> SetParent ex_db 9 ''cat-100001'' None (Some 3) =
     (ex_db, Inl (Errorf ''%w: stale write; expected version %d'' [W ErrConflict, D 3]))
   \<and> SetBlockedBy ex_db 9 ''cat-100002'' [''cat-100001'', '' CAT-100001''] (Some 2) =
     (ex_db, Inl (Errorf ''%w: stale write; expected version %d'' [W ErrConflict, D 2]))"
proof -
  have l1: "map_of ex_db (TrimSpace ''cat-100001'') =
              Some (ex_row\<lparr>version := 4, last_updated_at := 6\<rparr>)"
    by (simp add: TrimSpace_ex ex_lookup1)
  have l2: "map_of ex_db (TrimSpace ''cat-100002'') =
              Some (ex_row\<lparr>state := ''done'', version := 3, blocked_by := [''cat-100001''],
                          created_at := 2, last_updated_at := 5, closed_at := Some 5\<rparr>)"
    by (simp add: TrimSpace_ex ex_lookup2)
  have v1: "(3::int) \<noteq> version (ex_row\<lparr>version := 4, last_updated_at := 6\<rparr>)"
    by simp
  have v2: "(2::int) \<noteq> version (ex_row\<lparr>state := ''done'', version := 3,
                          blocked_by := [''cat-100001''],
                          created_at := 2, last_updated_at := 5, closed_at := Some 5\<rparr>)"
    by simp
  show ?thesis
    using C4_stale_version[OF l1 v1 ex_lookup1 v1, of 9 "''blocked''" None "[]"]
      C4_stale_version[OF l2 v2 ex_lookup1 v1, of 9 "''blocked''" None
        "[''cat-100001'', '' CAT-100001'']"]
    by (simp add: ex_transition_blocked ex_setparent_none ex_setblockedby)
qed




text \<open>
  C6. In every row \<open>closed_at\<close> is set if and only if the state is \<open>done\<close> or
  \<open>canceled\<close>. The empty table satisfies this and the four operations keep it:
  \<open>CreateIssue\<close> writes a row in state \<open>todo\<close> with no \<open>closed_at\<close>; a successful
  \<open>TransitionState\<close> leaves the row in the target state with \<open>closed_at\<close> set to the
  current time when the target is \<open>done\<close> or \<open>canceled\<close> and cleared otherwise;
  \<open>SetParent\<close> and \<open>SetBlockedBy\<close> change neither the state nor \<open>closed_at\<close> of any
  row.
\<close>

theorem C6_closed_at_invariant:
  "closed_at_inv []
   \<and> (closed_at_inv db \<longrightarrow>
        closed_at_inv (fst (CreateIssue db now pp cat ttl bdy p bb envs))
        \<and> closed_at_inv (fst (TransitionState db now k to ev))
        \<and> closed_at_inv (fst (SetParent db now id0 p' ev))
        \<and> closed_at_inv (fst (SetBlockedBy db now id0 bb' ev)))
   \<and> (\<forall>db' i. CreateIssue db now pp cat ttl bdy p bb envs = (db', Inr i) \<longrightarrow>
        State i = ''todo'' \<and> ClosedAt i = None
        \<and> map_option state (map_of db' (ID i)) = Some ''todo''
        \<and> map_option closed_at (map_of db' (ID i)) = Some None)
   \<and> (\<forall>db' i. TransitionState db now k to ev = (db', Inr i) \<longrightarrow>
        State i = to
        \<and> ClosedAt i = (if to = ''done'' \<or> to = ''canceled'' then Some now else None)
        \<and> map_option state (map_of db' k) = Some to
        \<and> map_option closed_at (map_of db' k) =
            Some (if to = ''done'' \<or> to = ''canceled'' then Some now else None))
   \<and> (\<forall>db' i k'. SetParent db now id0 p' ev = (db', Inr i) \<longrightarrow>
        map_option state (map_of db' k') = map_option state (map_of db k')
        \<and> map_option closed_at (map_of db' k') = map_option closed_at (map_of db k'))
   \<and> (\<forall>db' i k'. SetBlockedBy db now id0 bb' ev = (db', Inr i) \<longrightarrow>
        map_option state (map_of db' k') = map_option state (map_of db k')
        \<and> map_option closed_at (map_of db' k') = map_option closed_at (map_of db k'))"
proof (intro conjI impI allI)
  show "closed_at_inv []" by (simp add: closed_at_inv_def)
next
  assume "closed_at_inv db"
  then show "closed_at_inv (fst (CreateIssue db now pp cat ttl bdy p bb envs))"
    by (rule closed_at_inv_CreateIssue)
next
  assume "closed_at_inv db"
  then show "closed_at_inv (fst (TransitionState db now k to ev))"
    by (rule closed_at_inv_TransitionState)
next
  assume "closed_at_inv db"
  then show "closed_at_inv (fst (SetParent db now id0 p' ev))"
    by (rule closed_at_inv_SetParent)
next
  assume "closed_at_inv db"
  then show "closed_at_inv (fst (SetBlockedBy db now id0 bb' ev))"
    by (rule closed_at_inv_SetBlockedBy)
next
  fix db' i
  assume h: "CreateIssue db now pp cat ttl bdy p bb envs = (db', Inr i)"
  have "State i = ''todo'' \<and> ClosedAt i = None
        \<and> map_option state (map_of db' (ID i)) = Some ''todo''
        \<and> map_option closed_at (map_of db' (ID i)) = Some None"
  proof (cases rule: CreateIssue_cases[of db now pp cat ttl bdy p bb envs])
    case (fail e)
    with h show ?thesis by simp
  next
    case (ok n nb)
    with h show ?thesis
      by (auto simp: scanIssue_simps created_row_simps map_add_def)
  qed
  then show "State i = ''todo''" "ClosedAt i = None"
    "map_option state (map_of db' (ID i)) = Some ''todo''"
    "map_option closed_at (map_of db' (ID i)) = Some None"
    by simp_all
next
  fix db' i
  assume h: "TransitionState db now k to ev = (db', Inr i)"
  from TransitionState_Inr[OF h] obtain r where r: "map_of db k = Some r"
    "db' = AList.map_entry k (transition_row now to) db"
    "i = scanIssue k (transition_row now to r)"
    by blast
  from r show "State i = to"
    "ClosedAt i = (if to = ''done'' \<or> to = ''canceled'' then Some now else None)"
    "map_option state (map_of db' k) = Some to"
    "map_option closed_at (map_of db' k) =
            Some (if to = ''done'' \<or> to = ''canceled'' then Some now else None)"
    by (simp_all add: scanIssue_simps transition_row_simps map_of_map_entry)
next
  fix db' i k'
  assume h: "SetParent db now id0 p' ev = (db', Inr i)"
  have "map_option state (map_of db' k') = map_option state (map_of db k')
        \<and> map_option closed_at (map_of db' k') = map_option closed_at (map_of db k')"
  proof (cases rule: SetParent_cases[of db now id0 p' ev])
    case (fail e)
    with h show ?thesis by simp
  next
    case (ok r)
    with h show ?thesis
      by (auto simp: map_of_map_entry setparent_row_simps split: option.splits)
  qed
  then show "map_option state (map_of db' k') = map_option state (map_of db k')"
    "map_option closed_at (map_of db' k') = map_option closed_at (map_of db k')"
    by simp_all
next
  fix db' i k'
  assume h: "SetBlockedBy db now id0 bb' ev = (db', Inr i)"
  have "map_option state (map_of db' k') = map_option state (map_of db k')
        \<and> map_option closed_at (map_of db' k') = map_option closed_at (map_of db k')"
  proof (cases rule: SetBlockedBy_cases[of db now id0 bb' ev])
    case (fail e)
    with h show ?thesis by simp
  next
    case (ok r nb)
    with h show ?thesis
      by (auto simp: map_of_map_entry setblockedby_row_simps split: option.splits)
  qed
  then show "map_option state (map_of db' k') = map_option state (map_of db k')"
    "map_option closed_at (map_of db' k') = map_option closed_at (map_of db k')"
    by simp_all
qed

theorem C6_closed_at_invariant_witness:
  "closed_at_inv ex_db
   \<and> closed_at_inv (AList.map_entry ''cat-100001'' (transition_row 9 ''blocked'') ex_db)
   \<and> closed_at_inv (ex_db @ [(''cat-100007'',
         created_row 9 ''workstream'' ''Other'' '''' (Some ''cat-100001'') [])])
   \<and> State (scanIssue ''cat-100007''
         (created_row 9 ''workstream'' ''Other'' '''' (Some ''cat-100001'') [])) = ''todo''
   \<and> ClosedAt (scanIssue ''cat-100001''
         (transition_row 9 ''blocked'' (ex_row\<lparr>version := 4, last_updated_at := 6\<rparr>))) = None"
proof (intro conjI)
  show "closed_at_inv ex_db" by (rule ex_invs)
  have "closed_at_inv (fst (TransitionState ex_db 9 ''cat-100001'' ''blocked'' None))"
    by (rule C6_closed_at_invariant[THEN conjunct2, THEN conjunct1, THEN mp, THEN conjunct2,
          THEN conjunct1]) (rule ex_invs)
  then show "closed_at_inv (AList.map_entry ''cat-100001'' (transition_row 9 ''blocked'') ex_db)"
    by (simp only: ex_transition_blocked fst_conv)
  have "closed_at_inv (fst (CreateIssue ex_db 9 ''cat'' ''workstream'' ''Other'' ''''
          (Some ''cat-100001 '') [] (\<lambda>_. ex_env 7)))"
    by (rule C6_closed_at_invariant[THEN conjunct2, THEN conjunct1, THEN mp, THEN conjunct1])
      (rule ex_invs)
  then show "closed_at_inv (ex_db @ [(''cat-100007'',
         created_row 9 ''workstream'' ''Other'' '''' (Some ''cat-100001'') [])])"
    by (simp only: ex_create_workstream fst_conv)
  show "State (scanIssue ''cat-100007''
         (created_row 9 ''workstream'' ''Other'' '''' (Some ''cat-100001'') [])) = ''todo''"
    using C6_closed_at_invariant[THEN conjunct2, THEN conjunct2, THEN conjunct1, THEN spec,
        THEN spec, THEN mp, OF ex_create_workstream]
    by simp
  show "ClosedAt (scanIssue ''cat-100001''
         (transition_row 9 ''blocked'' (ex_row\<lparr>version := 4, last_updated_at := 6\<rparr>))) = None"
    using C6_closed_at_invariant[THEN conjunct2, THEN conjunct2, THEN conjunct2, THEN conjunct1,
        THEN spec, THEN spec, THEN mp, OF ex_transition_blocked]
    by simp
qed

text \<open>
  C7, as stated, fails for repeated entries: they are skipped, not rejected. For the
  issue \<open>cat-100002\<close> of the example store, the list that names \<open>cat-100001\<close> twice
  (the second time in capitals, with a blank before it) is normalized to the list that
  names it once, and \<open>SetBlockedBy\<close> with that list succeeds.
\<close>

theorem C7_counterexample:
  "normalize_id ''cat-100001'' = normalize_id '' CAT-100001''
   \<and> normalizeBlockedByTx ex_db ''cat-100002'' ''cat'' [''cat-100001'', '' CAT-100001''] =
       Inr [''cat-100001'']
   \<and> SetBlockedBy ex_db 9 ''cat-100002'' [''cat-100001'', '' CAT-100001''] None =
       (AList.map_entry ''cat-100002'' (setblockedby_row 9 [''cat-100001'']) ex_db,
        Inr (scanIssue ''cat-100002''
               (setblockedby_row 9 [''cat-100001'']
                  (ex_row\<lparr>state := ''done'', version := 3, blocked_by := [''cat-100001''],
                            created_at := 2, last_updated_at := 5, closed_at := Some 5\<rparr>))))"
  by (simp add: norm_ex ex_normalize ex_setblockedby)

text \<open>
  C7, amended. A list with an entry that, trimmed and lower-cased, is the id of the
  issue itself always makes the normalization fail; \<open>SetBlockedBy\<close> with such a
  list, and \<open>CreateIssue\<close> with a list that names the id it draws first, fail and
  leave the table as it was. A repeated entry is not rejected: the list
  a successful normalization returns has no duplicates, and repeating an entry of the
  input at its end changes nothing in the result.
\<close>

theorem C7_self_rejected_duplicates_dropped:
  "(issueID \<noteq> '''' \<and> issueID \<in> normalize_id ` set blockedBy \<longrightarrow>
      (\<exists>e. normalizeBlockedByTx db issueID pfx blockedBy = Inl e))
   \<and> (TrimSpace id0 \<in> normalize_id ` set blockedBy \<longrightarrow>
      (\<exists>e. SetBlockedBy db now id0 blockedBy ev = (db, Inl e)))
   \<and> (randomIssueNumber (rand_Reader (envs 0)) = Inr n
       \<and> TrimSpace (ToLower pp) @ ''-'' @ fmt_d n \<in> normalize_id ` set blockedBy
       \<longrightarrow>
      (\<exists>e. CreateIssue db now pp cat ttl bdy p blockedBy envs = (db, Inl e)))
   \<and> (normalizeBlockedByTx db issueID pfx blockedBy = Inr out \<longrightarrow>
      distinct out
      \<and> (\<forall>x \<in> set blockedBy.
            normalizeBlockedByTx db issueID pfx (blockedBy @ [x]) = Inr out))"
proof (intro conjI impI)
  assume "issueID \<noteq> '''' \<and> issueID \<in> normalize_id ` set blockedBy"
  then show "\<exists>e. normalizeBlockedByTx db issueID pfx blockedBy = Inl e"
    by (simp add: normalizeBlockedByTx_def norm_loop_self)
next
  assume self: "TrimSpace id0 \<in> normalize_id ` set blockedBy"
  show "\<exists>e. SetBlockedBy db now id0 blockedBy ev = (db, Inl e)"
  proof (cases rule: SetBlockedBy_cases[of db now id0 blockedBy ev])
    case (fail e)
    then show ?thesis by blast
  next
    case (ok r nb)
    have "TrimSpace id0 \<noteq> []"
    proof
      assume "TrimSpace id0 = []"
      then have "SetBlockedBy db now id0 blockedBy ev =
          (db, Inl (Errorf ''%w: id is required'' [W ErrInvalidInput]))"
        by (simp add: SetBlockedBy_def)
      with ok(4) show False by simp
    qed
    from norm_loop_self[OF this self, of db "project_of (TrimSpace id0)" "\<lambda>_. False" "[]"] ok(2)
    show ?thesis by (simp add: normalizeBlockedByTx_def)
  qed
next
  assume "randomIssueNumber (rand_Reader (envs 0)) = Inr n
       \<and> TrimSpace (ToLower pp) @ ''-'' @ fmt_d n \<in> normalize_id ` set blockedBy"
  then show "\<exists>e. CreateIssue db now pp cat ttl bdy p blockedBy envs = (db, Inl e)"
    using CreateIssue_self_reference by blast
next
  assume "normalizeBlockedByTx db issueID pfx blockedBy = Inr out"
  then have "normalizeBlockedByTx_loop db issueID pfx blockedBy (\<lambda>_. False) [] = Inr out"
    by (simp add: normalizeBlockedByTx_def)
  from norm_loop_Inr[OF this] show "distinct out" by auto
next
  assume "normalizeBlockedByTx db issueID pfx blockedBy = Inr out"
  then have l: "normalizeBlockedByTx_loop db issueID pfx blockedBy (\<lambda>_. False) [] = Inr out"
    by (simp add: normalizeBlockedByTx_def)
  show "\<forall>x \<in> set blockedBy. normalizeBlockedByTx db issueID pfx (blockedBy @ [x]) = Inr out"
    using norm_loop_repeat[OF l] by (simp add: normalizeBlockedByTx_def)
qed

theorem C7_self_rejected_duplicates_dropped_witness:
  "(\<exists>e. normalizeBlockedByTx ex_db ''cat-100002'' ''cat'' [''cat-100001'', ''CAT-100002 ''] =
          Inl e)
   \<and> (\<exists>e. SetBlockedBy ex_db 9 ''cat-100002'' [''cat-100001'', ''CAT-100002 ''] None =
            (ex_db, Inl e))
   \<and> (\<exists>e. CreateIssue ex_db 9 ''cat'' ''project'' ''Other'' '''' None [''cat-100007'']
            (\<lambda>_. ex_env 7) = (ex_db, Inl e))
   \<and> normalizeBlockedByTx ex_db ''cat-100002'' ''cat'' ([''cat-100001''] @ [''cat-100001'']) =
       Inr [''cat-100001'']"
proof (intro conjI)
  show "\<exists>e. CreateIssue ex_db 9 ''cat'' ''project'' ''Other'' '''' None [''cat-100007'']
            (\<lambda>_. ex_env 7) = (ex_db, Inl e)"
    by (rule C7_self_rejected_duplicates_dropped[where n = 100007, THEN conjunct2,
          THEN conjunct2, THEN conjunct1, THEN mp])
      (simp add: norm_ex TrimSpace_ex fmt_ex ex_rand)
  show "\<exists>e. normalizeBlockedByTx ex_db ''cat-100002'' ''cat'' [''cat-100001'', ''CAT-100002 ''] =
          Inl e"
    by (rule C7_self_rejected_duplicates_dropped[THEN conjunct1, THEN mp])
      (simp add: norm_ex)
  show "\<exists>e. SetBlockedBy ex_db 9 ''cat-100002'' [''cat-100001'', ''CAT-100002 ''] None =
            (ex_db, Inl e)"
    by (rule C7_self_rejected_duplicates_dropped[THEN conjunct2, THEN conjunct1, THEN mp])
      (simp add: norm_ex TrimSpace_ex)
  show "normalizeBlockedByTx ex_db ''cat-100002'' ''cat'' ([''cat-100001''] @ [''cat-100001'']) =
       Inr [''cat-100001'']"
    using C7_self_rejected_duplicates_dropped[THEN conjunct2, THEN conjunct2, THEN conjunct2,
        THEN mp, OF ex_normalize(1), THEN conjunct2]
    by simp
qed

text \<open>
  C8. Dependency normalization is idempotent: the list a successful normalization
  returns, normalized again for the same issue, project and table, is returned as it is.
\<close>

theorem C8_normalization_idempotent:
  assumes "normalizeBlockedByTx db issueID pfx blockedBy = Inr out"
  shows "normalizeBlockedByTx db issueID pfx out = Inr out"
proof -
  from assms have "normalizeBlockedByTx_loop db issueID pfx blockedBy (\<lambda>_. False) [] = Inr out"
    by (simp add: normalizeBlockedByTx_def)
  from norm_loop_Inr[OF this] have "distinct out"
    and "\<forall>d \<in> set out. accepted db issueID pfx d \<and> \<not> (\<lambda>_. False) d"
    by auto
  from norm_loop_ok[OF this(2,1), of "[]"] show ?thesis
    by (simp add: normalizeBlockedByTx_def)
qed

theorem C8_normalization_idempotent_witness:
  "normalizeBlockedByTx ex_db ''cat-100002'' ''cat'' [''cat-100001'', '' CAT-100001''] =
     Inr [''cat-100001'']
   \<and> normalizeBlockedByTx ex_db ''cat-100002'' ''cat'' [''cat-100001''] = Inr [''cat-100001'']"
  using C8_normalization_idempotent[OF ex_normalize(2)] ex_normalize(2) by simp

text \<open>
  C9. The issue number is 100000 plus what \<open>rand.Int\<close> gives below 900000: whatever is
  read, it lies between 100000 and 999999, and each number of that range can be drawn.
  \<open>CreateIssue\<close> makes at most eight attempts, attempt \<open>i\<close> in the environment
  \<open>envs i\<close> with a number drawn anew: its result does not depend on a ninth environment.
  An attempt is followed by another one exactly when the draw succeeded, the parent and
  the dependencies were accepted, and the \<open>INSERT\<close> or the \<open>Commit\<close> failed with an
  error that \<open>isUniqueViolation\<close> accepts, that is, one whose message in lower case
  contains \<open>unique\<close>; the error of an \<open>INSERT\<close> that finds the id already in the table
  (the violation of the primary key) is one. An \<open>INSERT\<close> or a \<open>Commit\<close> that fails
  with any other error ends the operation with that error, and so does every other
  outcome of an attempt, error or success. When all eight attempts are followed by
  another one the operation fails with \<open>ErrConflict\<close> and the table is as it was.
\<close>

theorem C9_id_allocation:
  "(\<forall>m. randomIssueNumber rd = Inr m \<longrightarrow> 100000 \<le> m \<and> m \<le> 999999)
   \<and> (\<forall>m. 100000 \<le> m \<and> m \<le> 999999 \<longrightarrow> (\<exists>x. randomIssueNumber (Inr x) = Inr m))
   \<and> maxCreateAttempts = 8
   \<and> isUniqueViolation msg = (\<exists>a b. ToLower msg = a @ ''unique'' @ b)
   \<and> ((CreateIssue_attempt db now pfx cat ttl bdy p bb env = Continue) =
        (\<exists>n nb. randomIssueNumber (rand_Reader env) = Inr n
           \<and> parent_ok db cat pfx (effective_parent p)
           \<and> normalizeBlockedByTx db (pfx @ ''-'' @ fmt_d n) pfx bb = Inr nb
           \<and> (case insert_failure env of
                Some m \<Rightarrow> isUniqueViolation m
              | None \<Rightarrow>
                  (case map_of db (pfx @ ''-'' @ fmt_d n) of
                     Some r \<Rightarrow> True
                   | None \<Rightarrow>
                       (case commit_failure env of
                          Some m \<Rightarrow> isUniqueViolation m
                        | None \<Rightarrow> False)))))
   \<and> (randomIssueNumber (rand_Reader env) = Inr n
        \<and> parent_ok db cat pfx (effective_parent p)
        \<and> normalizeBlockedByTx db (pfx @ ''-'' @ fmt_d n) pfx bb = Inr nb
        \<and> \<not> isUniqueViolation msg
        \<and> (insert_failure env = Some msg
            \<or> insert_failure env = None \<and> map_of db (pfx @ ''-'' @ fmt_d n) = None
               \<and> commit_failure env = Some msg) \<longrightarrow>
        CreateIssue_attempt db now pfx cat ttl bdy p bb env =
          Return (db, Inl (ExternalErr msg)))
   \<and> ((\<forall>i < 8. envs i = envs' i) \<longrightarrow>
        CreateIssue db now pp cat ttl bdy p bb envs = CreateIssue db now pp cat ttl bdy p bb envs')
   \<and> (projectPrefixRe (TrimSpace (ToLower pp)) \<and> IsValidCategory cat \<and> TrimSpace ttl \<noteq> ''''
        \<and> (\<forall>i < 8. CreateIssue_attempt db now (TrimSpace (ToLower pp)) cat (TrimSpace ttl)
                       bdy p bb (envs i) = Continue) \<longrightarrow>
        CreateIssue db now pp cat ttl bdy p bb envs =
          (db, Inl (Errorf ''%w: failed to allocate issue number after retries''
                      [W ErrConflict])))
   \<and> (projectPrefixRe (TrimSpace (ToLower pp)) \<and> IsValidCategory cat \<and> TrimSpace ttl \<noteq> ''''
        \<and> j < 8
        \<and> (\<forall>i < j. CreateIssue_attempt db now (TrimSpace (ToLower pp)) cat (TrimSpace ttl)
                       bdy p bb (envs i) = Continue)
        \<and> CreateIssue_attempt db now (TrimSpace (ToLower pp)) cat (TrimSpace ttl)
             bdy p bb (envs j) = Return res \<longrightarrow>
        CreateIssue db now pp cat ttl bdy p bb envs = res)"
proof (intro conjI impI allI)
  fix m assume "randomIssueNumber rd = Inr m"
  then obtain x where "m = 100000 + int x mod 900000"
    by (cases rd) (auto simp: randomIssueNumber_conv)
  moreover have "0 \<le> int x mod 900000" and "int x mod 900000 < 900000"
    by simp_all
  ultimately show "100000 \<le> m" and "m \<le> 999999"
    by linarith+
next
  fix m :: int assume m: "100000 \<le> m \<and> m \<le> 999999"
  then have "int (nat (m - 100000)) mod 900000 = m - 100000"
    by simp
  then have "randomIssueNumber (Inr (nat (m - 100000))) = Inr m"
    by (simp add: randomIssueNumber_conv)
  then show "\<exists>x. randomIssueNumber (Inr x) = Inr m" ..
next
  show "maxCreateAttempts = 8" by (simp add: maxCreateAttempts_def)
next
  show "isUniqueViolation msg = (\<exists>a b. ToLower msg = a @ ''unique'' @ b)"
    by (rule isUniqueViolation_iff)
next
  let ?retry = "\<lambda>n. case insert_failure env of
                Some m \<Rightarrow> isUniqueViolation m
              | None \<Rightarrow>
                  (case map_of db (pfx @ ''-'' @ fmt_d n) of
                     Some r \<Rightarrow> True
                   | None \<Rightarrow>
                       (case commit_failure env of
                          Some m \<Rightarrow> isUniqueViolation m
                        | None \<Rightarrow> False))"
  have step: "(CreateIssue_attempt db now pfx cat ttl bdy p bb env = Continue) = ?retry n"
    if rn: "randomIssueNumber (rand_Reader env) = Inr n"
      and pk: "parent_ok db cat pfx (effective_parent p)"
      and nb: "normalizeBlockedByTx db (pfx @ ''-'' @ fmt_d n) pfx bb = Inr nb" for n nb
  proof (cases "insert_failure env")
    case (Some m)
    from CreateIssue_attempt_conv(5)[OF rn pk nb this] Some show ?thesis by simp
  next
    case ins: None
    show ?thesis
    proof (cases "map_of db (pfx @ ''-'' @ fmt_d n)")
      case (Some r)
      then have "map_of db (pfx @ ''-'' @ fmt_d n) \<noteq> None" by simp
      from CreateIssue_attempt_conv(3)[OF rn pk nb ins this] ins Some show ?thesis by simp
    next
      case None
      show ?thesis
      proof (cases "commit_failure env")
        case (Some m)
        from CreateIssue_attempt_conv(6)[OF rn pk nb ins None this] ins None Some
        show ?thesis by simp
      next
        case com: None
        from CreateIssue_attempt_conv(4)[OF rn pk nb ins None com] ins None com
        show ?thesis by simp
      qed
    qed
  qed
  show "(CreateIssue_attempt db now pfx cat ttl bdy p bb env = Continue) =
        (\<exists>n nb. randomIssueNumber (rand_Reader env) = Inr n
           \<and> parent_ok db cat pfx (effective_parent p)
           \<and> normalizeBlockedByTx db (pfx @ ''-'' @ fmt_d n) pfx bb = Inr nb
           \<and> ?retry n)"
  proof
    assume c: "CreateIssue_attempt db now pfx cat ttl bdy p bb env = Continue"
    obtain n where rn: "randomIssueNumber (rand_Reader env) = Inr n"
    proof (cases "randomIssueNumber (rand_Reader env)")
      case (Inl err)
      from CreateIssue_attempt_Inl[OF this, of db now pfx cat ttl bdy p bb] c
      show ?thesis by simp
    next
      case (Inr n)
      then show ?thesis by (rule that)
    qed
    have pk: "parent_ok db cat pfx (effective_parent p)"
    proof (rule ccontr)
      assume "\<not> parent_ok db cat pfx (effective_parent p)"
      from CreateIssue_attempt_conv(1)[OF rn this, of now ttl bdy bb] c show False by auto
    qed
    obtain nb where nb: "normalizeBlockedByTx db (pfx @ ''-'' @ fmt_d n) pfx bb = Inr nb"
    proof (cases "normalizeBlockedByTx db (pfx @ ''-'' @ fmt_d n) pfx bb")
      case (Inl e)
      from CreateIssue_attempt_conv(2)[OF rn pk this, of now ttl bdy] c show ?thesis by simp
    next
      case (Inr nb)
      then show ?thesis by (rule that)
    qed
    from step[OF rn pk nb] c have "?retry n" by simp
    with rn pk nb show "\<exists>n nb. randomIssueNumber (rand_Reader env) = Inr n
           \<and> parent_ok db cat pfx (effective_parent p)
           \<and> normalizeBlockedByTx db (pfx @ ''-'' @ fmt_d n) pfx bb = Inr nb
           \<and> ?retry n"
      by blast
  next
    assume "\<exists>n nb. randomIssueNumber (rand_Reader env) = Inr n
           \<and> parent_ok db cat pfx (effective_parent p)
           \<and> normalizeBlockedByTx db (pfx @ ''-'' @ fmt_d n) pfx bb = Inr nb
           \<and> ?retry n"
    then obtain n nb where "randomIssueNumber (rand_Reader env) = Inr n"
      "parent_ok db cat pfx (effective_parent p)"
      "normalizeBlockedByTx db (pfx @ ''-'' @ fmt_d n) pfx bb = Inr nb" "?retry n"
      by blast
    from step[OF this(1,2,3)] this(4)
    show "CreateIssue_attempt db now pfx cat ttl bdy p bb env = Continue"
      by simp
  qed
next
  assume h: "randomIssueNumber (rand_Reader env) = Inr n
        \<and> parent_ok db cat pfx (effective_parent p)
        \<and> normalizeBlockedByTx db (pfx @ ''-'' @ fmt_d n) pfx bb = Inr nb
        \<and> \<not> isUniqueViolation msg
        \<and> (insert_failure env = Some msg
            \<or> insert_failure env = None \<and> map_of db (pfx @ ''-'' @ fmt_d n) = None
               \<and> commit_failure env = Some msg)"
  then have rn: "randomIssueNumber (rand_Reader env) = Inr n"
    and pk: "parent_ok db cat pfx (effective_parent p)"
    and nb: "normalizeBlockedByTx db (pfx @ ''-'' @ fmt_d n) pfx bb = Inr nb"
    and nu: "\<not> isUniqueViolation msg"
    by simp_all
  from h have "insert_failure env = Some msg
            \<or> insert_failure env = None \<and> map_of db (pfx @ ''-'' @ fmt_d n) = None
               \<and> commit_failure env = Some msg"
    by simp
  then show "CreateIssue_attempt db now pfx cat ttl bdy p bb env =
          Return (db, Inl (ExternalErr msg))"
  proof (elim disjE conjE)
    assume ins: "insert_failure env = Some msg"
    from CreateIssue_attempt_conv(5)[OF rn pk nb ins] nu show ?thesis by simp
  next
    assume com: "insert_failure env = None" "map_of db (pfx @ ''-'' @ fmt_d n) = None"
        "commit_failure env = Some msg"
    from CreateIssue_attempt_conv(6)[OF rn pk nb com] nu show ?thesis by simp
  qed
next
  assume "\<forall>i < 8. envs i = envs' i"
  then have "\<forall>i < maxCreateAttempts. envs i = envs' i"
    by (simp add: maxCreateAttempts_def)
  from CreateIssue_loop_draws[OF this]
  show "CreateIssue db now pp cat ttl bdy p bb envs = CreateIssue db now pp cat ttl bdy p bb envs'"
    by (simp add: CreateIssue_def Let_def)
next
  assume h: "projectPrefixRe (TrimSpace (ToLower pp)) \<and> IsValidCategory cat
        \<and> TrimSpace ttl \<noteq> ''''
        \<and> (\<forall>i < 8. CreateIssue_attempt db now (TrimSpace (ToLower pp)) cat (TrimSpace ttl)
                       bdy p bb (envs i) = Continue)"
  then have "\<forall>i < maxCreateAttempts.
      CreateIssue_attempt db now (TrimSpace (ToLower pp)) cat (TrimSpace ttl) bdy p bb (envs i)
        = Continue"
    by (simp add: maxCreateAttempts_def)
  from CreateIssue_loop_all_collide[OF this, of 0] h
  show "CreateIssue db now pp cat ttl bdy p bb envs =
          (db, Inl (Errorf ''%w: failed to allocate issue number after retries''
                      [W ErrConflict]))"
    by (simp add: CreateIssue_def Let_def)
next
  assume h: "projectPrefixRe (TrimSpace (ToLower pp)) \<and> IsValidCategory cat
        \<and> TrimSpace ttl \<noteq> ''''
        \<and> j < 8
        \<and> (\<forall>i < j. CreateIssue_attempt db now (TrimSpace (ToLower pp)) cat (TrimSpace ttl)
                       bdy p bb (envs i) = Continue)
        \<and> CreateIssue_attempt db now (TrimSpace (ToLower pp)) cat (TrimSpace ttl)
             bdy p bb (envs j) = Return res"
  have "CreateIssue_loop db now (TrimSpace (ToLower pp)) cat (TrimSpace ttl) bdy p bb envs 0 = res"
    by (rule CreateIssue_loop_first_return[where j = j])
      (use h in \<open>simp_all add: maxCreateAttempts_def\<close>)
  with h show "CreateIssue db now pp cat ttl bdy p bb envs = res"
    by (simp add: CreateIssue_def Let_def)
qed

theorem C9_id_allocation_witness:
  "randomIssueNumber (Inr 899999) = Inr 999999
   \<and> randomIssueNumber (Inr 900001) = Inr 100001
   \<and> CreateIssue_attempt ex_db 9 ''cat'' ''project'' ''Other'' '''' None [] (ex_env 900001) = Continue
   \<and> CreateIssue_attempt ex_db 9 ''cat'' ''project'' ''Other'' '''' None []
        (ex_env 7\<lparr>insert_failure := Some ''database is locked (5) (SQLITE_BUSY)''\<rparr>) =
       Return (ex_db, Inl (ExternalErr ''database is locked (5) (SQLITE_BUSY)''))
   \<and> CreateIssue ex_db 9 ''cat'' ''project'' ''Other'' '''' None [] (\<lambda>_. ex_env 900001) =
       (ex_db, Inl (Errorf ''%w: failed to allocate issue number after retries''
                      [W ErrConflict]))
   \<and> CreateIssue ex_db 9 ''cat'' ''project'' ''Other'' '''' None []
         (\<lambda>i. if i < 3 then ex_env 900001 else ex_env 7) =
       (ex_db @ [(''cat-100007'', created_row 9 ''project'' ''Other'' '''' None [])],
        Inr (scanIssue ''cat-100007'' (created_row 9 ''project'' ''Other'' '''' None [])))"
proof (intro conjI)
  have "\<forall>m. randomIssueNumber (Inr 899999) = Inr m \<longrightarrow> 100000 \<le> m \<and> m \<le> 999999"
    by (rule C9_id_allocation[THEN conjunct1])
  then show "randomIssueNumber (Inr 899999) = Inr 999999"
    by (simp add: randomIssueNumber_conv)
  show "randomIssueNumber (Inr 900001) = Inr 100001"
    by (simp add: randomIssueNumber_conv)
  show "CreateIssue_attempt ex_db 9 ''cat'' ''project'' ''Other'' '''' None [] (ex_env 900001) = Continue"
    by (rule C9_id_allocation[THEN conjunct2, THEN conjunct2, THEN conjunct2, THEN conjunct2,
          THEN conjunct1, THEN iffD2])
      (rule exI[of _ 100001], rule exI[of _ "[]"],
        simp add: ex_parent_ok fmt_ex ex_lookup1 normalizeBlockedByTx_def ex_env_def
          randomIssueNumber_conv)
  show "CreateIssue_attempt ex_db 9 ''cat'' ''project'' ''Other'' '''' None []
        (ex_env 7\<lparr>insert_failure := Some ''database is locked (5) (SQLITE_BUSY)''\<rparr>) =
       Return (ex_db, Inl (ExternalErr ''database is locked (5) (SQLITE_BUSY)''))"
    by (rule C9_id_allocation[where n = 100007 and nb = "[]", THEN conjunct2, THEN conjunct2,
          THEN conjunct2, THEN conjunct2, THEN conjunct2, THEN conjunct1, THEN mp])
      (simp add: ex_parent_ok fmt_ex normalizeBlockedByTx_def ex_env_def
        randomIssueNumber_conv isUniqueViolation_busy)
  show "CreateIssue ex_db 9 ''cat'' ''project'' ''Other'' '''' None [] (\<lambda>_. ex_env 900001) =
       (ex_db, Inl (Errorf ''%w: failed to allocate issue number after retries''
                      [W ErrConflict]))"
    by (rule C9_id_allocation[THEN conjunct2, THEN conjunct2, THEN conjunct2, THEN conjunct2,
          THEN conjunct2, THEN conjunct2, THEN conjunct2, THEN conjunct1, THEN mp])
      (simp add: ex_valid_inputs TrimSpace_ex re_ex ex_attempt_collide)
  show "CreateIssue ex_db 9 ''cat'' ''project'' ''Other'' '''' None []
         (\<lambda>i. if i < 3 then ex_env 900001 else ex_env 7) =
       (ex_db @ [(''cat-100007'', created_row 9 ''project'' ''Other'' '''' None [])],
        Inr (scanIssue ''cat-100007'' (created_row 9 ''project'' ''Other'' '''' None [])))"
    by (rule C9_id_allocation[where j = 3, THEN conjunct2, THEN conjunct2, THEN conjunct2,
          THEN conjunct2, THEN conjunct2, THEN conjunct2, THEN conjunct2, THEN conjunct2,
          THEN mp])
      (simp add: ex_valid_inputs TrimSpace_ex re_ex ex_attempt_collide ex_attempt_project)
qed

text \<open>
  C10. A target state that is none of the five defined states makes \<open>TransitionState\<close>
  fail with \<open>ErrInvalidInput\<close>, not with \<open>ErrInvalidStateTransition\<close>, whatever the
  store holds: the check comes before the issue is looked up, so the error is the same
  whether or not the issue exists.
\<close>

theorem C10_unknown_target_state:
  "to \<notin> set defined_states \<Longrightarrow>
   TransitionState db now k to ev =
     (db, Inl (Errorf ''%w: unknown target state %q'' [W ErrInvalidInput, Q to]))
   \<and> errors_Is (Errorf ''%w: unknown target state %q'' [W ErrInvalidInput, Q to]) ErrInvalidInput
   \<and> \<not> errors_Is (Errorf ''%w: unknown target state %q'' [W ErrInvalidInput, Q to])
         ErrInvalidStateTransition"
  by (simp add: TransitionState_def IsValidState_iff)

theorem C10_unknown_target_state_witness:
  "''review'' \<notin> set defined_states
   \<and> TransitionState ex_db 9 ''cat-100001'' ''review'' None =
       (ex_db, Inl (Errorf ''%w: unknown target state %q'' [W ErrInvalidInput, Q ''review'']))
   \<and> TransitionState ex_db 9 ''cat-999999'' ''review'' None =
       (ex_db, Inl (Errorf ''%w: unknown target state %q'' [W ErrInvalidInput, Q ''review'']))"
  using C10_unknown_target_state[of "''review''" ex_db 9 "''cat-100001''" None]
    C10_unknown_target_state[of "''review''" ex_db 9 "''cat-999999''" None]
  by (simp add: defined_states_def)

end
